theory Spec2Isabelle
  imports Main
begin

section \<open>Python values and library functions used by gpu_monitor.py\<close>

text \<open>
  A Python \<open>str\<close> is modelled as a \<open>string\<close> whose characters are the code points
  below 256; \<open>bytes\<close> are the raw output of a child process. Every exception the
  program can meet is a value of \<open>py_error\<close>; a computation that may raise returns
  \<open>py_error + 'a\<close> with \<open>Inl\<close> the exception.
\<close>

type_synonym bytes = string

datatype py_error =
    AttributeError
  | IndexError
  | ValueError
  | TypeError
  | ParseError
  | UnicodeDecodeError
  | OSError
  | CursesError

text \<open>\<open>str.isspace\<close> on the code points below 256.\<close>

definition is_space :: "char \<Rightarrow> bool" where
  "is_space c = (of_char c \<in> {9, 10, 11, 12, 13, 28, 29, 30, 31, 32, 133, 160 :: nat})"

text \<open>
  \<open>s.split()\<close>: the maximal runs of non-whitespace characters, in order. The first
  argument of \<open>tokens\<close> is the run collected so far.
\<close>

fun tokens :: "string \<Rightarrow> string \<Rightarrow> string list" where
  "tokens cur [] = (if cur = [] then [] else [cur])"
| "tokens cur (c # cs) =
     (if is_space c then (if cur = [] then tokens [] cs else cur # tokens [] cs)
      else tokens (cur @ [c]) cs)"

definition py_split :: "string \<Rightarrow> string list" where
  "py_split s = tokens [] s"

text \<open>\<open>s.split(sep)\<close> for a one-character separator: always at least one piece.\<close>

fun pieces :: "char \<Rightarrow> string \<Rightarrow> string \<Rightarrow> string list" where
  "pieces sep cur [] = [cur]"
| "pieces sep cur (c # cs) =
     (if c = sep then cur # pieces sep [] cs else pieces sep (cur @ [c]) cs)"

definition split_on :: "char \<Rightarrow> string \<Rightarrow> string list" where
  "split_on sep s = pieces sep [] s"

text \<open>\<open>s.strip()\<close>.\<close>

definition strip :: "string \<Rightarrow> string" where
  "strip s = rev (dropWhile is_space (rev (dropWhile is_space s)))"

text \<open>\<open>sep.join(xs)\<close> on a list of strings.\<close>

fun join :: "string \<Rightarrow> string list \<Rightarrow> string" where
  "join sep [] = []"
| "join sep [x] = x"
| "join sep (x # y # ys) = x @ sep @ join sep (y # ys)"

text \<open>
  \<open>sep.join(xs)\<close> on a list whose items may be \<open>None\<close>: Python raises \<open>TypeError\<close>
  when an item is not a string.
\<close>

definition join_opt :: "string \<Rightarrow> string option list \<Rightarrow> py_error + string" where
  "join_opt sep xs =
     (if None \<in> set xs then Inl TypeError else Inr (join sep (map the xs)))"

text \<open>\<open>str(n)\<close> for an integer, as an f-string formats it.\<close>

definition digit_char :: "nat \<Rightarrow> char" where
  "digit_char d = ''0123456789'' ! d"

fun str_nat :: "nat \<Rightarrow> string" where
  "str_nat n = (if n < 10 then [digit_char n] else str_nat (n div 10) @ [digit_char (n mod 10)])"

definition str_int :: "int \<Rightarrow> string" where
  "str_int i = (if i < 0 then CHR ''-'' # str_nat (nat (- i)) else str_nat (nat i))"

text \<open>\<open>str(x)\<close> of a value that is a string or \<open>None\<close>.\<close>

definition str_opt :: "string option \<Rightarrow> string" where
  "str_opt x = (case x of None \<Rightarrow> ''None'' | Some s \<Rightarrow> s)"

text \<open>
  \<open>int(s)\<close> on a token without whitespace: an optional sign, then decimal digits in
  which single underscores may separate digits; anything else raises \<open>ValueError\<close>.
  (The interpreter's limit on the number of digits of a literal is not modelled.)
\<close>

definition is_digit :: "char \<Rightarrow> bool" where
  "is_digit c = (48 \<le> (of_char c :: nat) \<and> (of_char c :: nat) \<le> 57)"

definition digit_val :: "char \<Rightarrow> nat" where
  "digit_val c = of_char c - 48"

fun grouped :: "string \<Rightarrow> bool" where
  "grouped [] = False"
| "grouped [c] = is_digit c"
| "grouped (c # d # cs) =
     (is_digit c \<and> (if d = CHR ''_'' then grouped cs else grouped (d # cs)))"

definition digits_value :: "string \<Rightarrow> nat" where
  "digits_value s = foldl (\<lambda>a c. 10 * a + digit_val c) 0 (filter (\<lambda>c. c \<noteq> CHR ''_'') s)"

definition py_int :: "string \<Rightarrow> py_error + int" where
  "py_int s =
     (case s of
        [] \<Rightarrow> Inl ValueError
      | c # cs \<Rightarrow>
          if c = CHR ''-'' then (if grouped cs then Inr (- int (digits_value cs)) else Inl ValueError)
          else if c = CHR ''+'' then (if grouped cs then Inr (int (digits_value cs)) else Inl ValueError)
          else if grouped s then Inr (int (digits_value s)) else Inl ValueError)"

text \<open>Sequencing of computations that may raise: the first exception wins.\<close>

definition bind :: "py_error + 'a \<Rightarrow> ('a \<Rightarrow> py_error + 'b) \<Rightarrow> py_error + 'b" where
  "bind m f = (case m of Inl e \<Rightarrow> Inl e | Inr x \<Rightarrow> f x)"

fun each :: "('a \<Rightarrow> py_error + 'b) \<Rightarrow> 'a list \<Rightarrow> py_error + 'b list" where
  "each f [] = Inr []"
| "each f (x # xs) = bind (f x) (\<lambda>y. bind (each f xs) (\<lambda>ys. Inr (y # ys)))"

section \<open>The element tree of xml.etree.ElementTree\<close>

datatype element = Element (tag: string) (el_text: "string option") (children: "element list")

text \<open>\<open>e.findall(t)\<close> and \<open>e.find(t)\<close> for a plain tag: the direct children with that tag.\<close>

definition findall :: "element \<Rightarrow> string \<Rightarrow> element list" where
  "findall e t = filter (\<lambda>c. tag c = t) (children e)"

definition first :: "'a list \<Rightarrow> 'a option" where
  "first xs = (case xs of [] \<Rightarrow> None | x # _ \<Rightarrow> Some x)"

definition find_tag :: "element \<Rightarrow> string \<Rightarrow> element option" where
  "find_tag e t = first (findall e t)"

text \<open>The two-step paths \<open>a/b\<close>: the \<open>b\<close> children of the \<open>a\<close> children, in document order.\<close>

definition findall2 :: "element \<Rightarrow> string \<Rightarrow> string \<Rightarrow> element list" where
  "findall2 e a b = concat (map (\<lambda>c. findall c b) (findall e a))"

definition find2 :: "element \<Rightarrow> string \<Rightarrow> string \<Rightarrow> element option" where
  "find2 e a b = first (findall2 e a b)"

text \<open>\<open>x.text\<close> where \<open>x\<close> is the result of a \<open>find\<close>: \<open>AttributeError\<close> on \<open>None\<close>.\<close>

definition text_of :: "element option \<Rightarrow> py_error + string option" where
  "text_of x = (case x of None \<Rightarrow> Inl AttributeError | Some e \<Rightarrow> Inr (el_text e))"

text \<open>
  \<open>int(x.text.split()[0])\<close>: \<open>AttributeError\<close> when the node or its text is missing,
  \<open>IndexError\<close> when the text has no token, \<open>ValueError\<close> when the first token is not
  an integer.
\<close>

definition leading_int :: "string \<Rightarrow> py_error + int" where
  "leading_int s = (case py_split s of [] \<Rightarrow> Inl IndexError | tok # _ \<Rightarrow> py_int tok)"

definition int_field :: "element option \<Rightarrow> py_error + int" where
  "int_field x =
     bind (text_of x) (\<lambda>t. case t of None \<Rightarrow> Inl AttributeError | Some s \<Rightarrow> leading_int s)"

section \<open>get_gpu_infos\<close>

record process =
  pid :: "string option"
  used_memory :: int

record gpu_info =
  index :: "string option"
  name :: "string option"
  memory_total :: int
  memory_used :: int
  memory_free :: int
  processes :: "process list"

definition parse_process :: "element \<Rightarrow> py_error + process" where
  "parse_process p =
     bind (text_of (find_tag p ''pid'')) (\<lambda>pd.
     bind (int_field (find_tag p ''used_memory'')) (\<lambda>um.
     Inr \<lparr>pid = pd, used_memory = um\<rparr>))"

definition parse_gpu :: "element \<Rightarrow> py_error + gpu_info" where
  "parse_gpu gpu =
     bind (text_of (find_tag gpu ''minor_number'')) (\<lambda>ix.
     bind (text_of (find_tag gpu ''product_name'')) (\<lambda>nm.
     bind (int_field (find2 gpu ''fb_memory_usage'' ''total'')) (\<lambda>mt.
     bind (int_field (find2 gpu ''fb_memory_usage'' ''used'')) (\<lambda>mu.
     bind (int_field (find2 gpu ''fb_memory_usage'' ''free'')) (\<lambda>mf.
     bind (each parse_process (findall2 gpu ''processes'' ''process_info'')) (\<lambda>ps.
     Inr \<lparr>index = ix, name = nm, memory_total = mt, memory_used = mu,
          memory_free = mf, processes = ps\<rparr>))))))"

text \<open>
  \<open>fromstring\<close> is \<open>ET.fromstring\<close>, the XML parser of the standard library: it is a
  parameter of the model, and gives \<open>None\<close> where the parser raises \<open>ParseError\<close>.
\<close>

definition get_gpu_infos ::
  "(bytes \<Rightarrow> element option) \<Rightarrow> bytes option \<Rightarrow> py_error + gpu_info list" where
  "get_gpu_infos fromstring nvidiasmi_output =
     (case nvidiasmi_output of
        None \<Rightarrow> Inr []
      | Some raw \<Rightarrow>
          (case fromstring raw of
             None \<Rightarrow> Inl ParseError
           | Some root \<Rightarrow> each parse_gpu (findall root ''gpu'')))"

section \<open>The world outside the program\<close>

text \<open>
  A child process is started by \<open>subprocess.check_output\<close>, either from an argument
  vector or (with \<open>shell=True\<close>) from a command line, and with a timeout in seconds.
  The call returns the output, or raises \<open>TimeoutExpired\<close>, \<open>CalledProcessError\<close> with
  the exit status, or \<open>OSError\<close> when the program cannot be started.
\<close>

datatype command = Argv "string list" | Shell string

record invocation =
  cmd :: command
  timeout :: int

datatype proc_result =
    Output bytes
  | TimeoutExpired
  | CalledProcessError int
  | SpawnFailed

text \<open>
  An entry of the log written by \<open>logging.error\<close>: the literal part of the message, and,
  where the message ends with the formatted exception \<open>e\<close>, that exception's command and
  exit status.
\<close>

datatype log_record =
    Error_msg string
  | Error_exc string command int

text \<open>The calls to the curses window \<open>stdscr\<close> and the attributes they carry.\<close>

datatype attr = A_NORMAL | color_pair nat

datatype call =
    Addstr_at int int string attr
  | Addstr string attr
  | Addch_at int int char
  | Clear
  | Refresh

text \<open>
  The effects of a run, in the order they happen: the child processes started, the log
  entries, the curses calls with whether curses accepted them (\<open>False\<close>: it raised
  \<open>curses.error\<close>), and the sleeps.
\<close>

record world =
  issued :: "invocation list"
  logged :: "log_record list"
  attempts :: "(call \<times> bool) list"
  slept :: "int list"

text \<open>
  What the program is run with: the parsed options \<open>args\<close> (at the types of their
  defaults), the globals \<open>curses.LINES\<close> and \<open>curses.COLS\<close>, the result of
  \<open>stdscr.getmaxyx()\<close>, and the behaviour of the libraries, each a function of what
  happened before: \<open>subprocess\<close> answers an invocation given the earlier invocations,
  \<open>surface\<close> tells whether curses accepts a call given the earlier calls,
  \<open>fromstring\<close> is \<open>ET.fromstring\<close> (\<open>None\<close>: it raises \<open>ParseError\<close>) and \<open>decode\<close> is
  \<open>bytes.decode\<close> (\<open>None\<close>: it raises \<open>UnicodeDecodeError\<close>).
\<close>

record env =
  ssh_user :: "string option"
  ssh_timeout :: int
  cmd_timeout :: int
  refresh_interval :: int
  LINES :: int
  COLS :: int
  getmaxyx :: "int \<times> int"
  subprocess :: "invocation list \<Rightarrow> invocation \<Rightarrow> proc_result"
  surface :: "(call \<times> bool) list \<Rightarrow> call \<Rightarrow> bool"
  fromstring :: "bytes \<Rightarrow> element option"
  decode :: "bytes \<Rightarrow> string option"

definition check_output :: "env \<Rightarrow> command \<Rightarrow> int \<Rightarrow> world \<Rightarrow> proc_result \<times> world" where
  "check_output env c t w =
     (let iv = \<lparr>cmd = c, timeout = t\<rparr>
      in (subprocess env (issued w) iv, w\<lparr>issued := issued w @ [iv]\<rparr>))"

definition logging_error :: "log_record \<Rightarrow> world \<Rightarrow> world" where
  "logging_error r w = w\<lparr>logged := logged w @ [r]\<rparr>"

definition curses_call :: "env \<Rightarrow> call \<Rightarrow> world \<Rightarrow> bool \<times> world" where
  "curses_call env c w =
     (let ok = surface env (attempts w) c
      in (ok, w\<lparr>attempts := attempts w @ [(c, ok)]\<rparr>))"

text \<open>Truth value of an optional string: \<open>None\<close> and the empty string are false.\<close>

definition truthy :: "string option \<Rightarrow> bool" where
  "truthy x = (case x of None \<Rightarrow> False | Some s \<Rightarrow> s \<noteq> [])"

definition startswith :: "string \<Rightarrow> string \<Rightarrow> bool" where
  "startswith s p = (take (length p) s = p)"

section \<open>parse_server and build_ssh_command\<close>

definition parse_server :: "string \<Rightarrow> py_error + (string \<times> string option)" where
  "parse_server server_str =
     (case py_split server_str of
        [] \<Rightarrow> Inl IndexError
      | host # rest \<Rightarrow>
          Inr (host, foldl (\<lambda>port part. if startswith part ''-p'' then Some (drop 2 part) else port)
                       None rest))"

definition build_ssh_command :: "env \<Rightarrow> string \<Rightarrow> string \<Rightarrow> py_error + string list" where
  "build_ssh_command env server remote_cmd =
     bind (parse_server server) (\<lambda>(host, port).
       Inr ([''ssh'']
            @ (if truthy port then [''-p'', the port] else [])
            @ [if truthy (ssh_user env) then the (ssh_user env) @ ''@'' @ host else host]
            @ [remote_cmd]))"

section \<open>run_nvidiasmi_local and run_nvidiasmi_remote\<close>

definition run_nvidiasmi_local :: "env \<Rightarrow> world \<Rightarrow> (py_error + bytes option) \<times> world" where
  "run_nvidiasmi_local env w =
     (let c = Argv [''nvidia-smi'', ''-q'', ''-x''] in
      case check_output env c (cmd_timeout env) w of
        (Output out, w') \<Rightarrow> (Inr (Some out), w')
      | (TimeoutExpired, w') \<Rightarrow>
          (Inr None, logging_error (Error_msg ''nvidia-smi command timed out'') w')
      | (CalledProcessError rc, w') \<Rightarrow>
          (Inr None, logging_error (Error_exc ''nvidia-smi command failed: '' c rc) w')
      | (SpawnFailed, w') \<Rightarrow> (Inl OSError, w'))"

definition nvidiasmi_remote_cmd :: "int \<Rightarrow> string" where
  "nvidiasmi_remote_cmd cmd_to = ''timeout '' @ str_int cmd_to @ '' nvidia-smi -q -x''"

definition run_nvidiasmi_remote ::
  "env \<Rightarrow> string \<Rightarrow> int \<Rightarrow> int \<Rightarrow> world \<Rightarrow> (py_error + bytes option) \<times> world" where
  "run_nvidiasmi_remote env server ssh_to cmd_to w =
     (let remote_cmd = nvidiasmi_remote_cmd cmd_to in
      case build_ssh_command env server remote_cmd of
        Inl e \<Rightarrow> (Inl e, w)
      | Inr ssh_cmd \<Rightarrow>
          (case check_output env (Argv ssh_cmd) ssh_to w of
             (Output out, w') \<Rightarrow> (Inr (Some out), w')
           | (TimeoutExpired, w') \<Rightarrow>
               (Inr None, logging_error (Error_msg (''Timeout while connecting to '' @ server)) w')
           | (CalledProcessError rc, w') \<Rightarrow>
               (Inr None,
                logging_error
                  (Error_exc (''Error running nvidia-smi on '' @ server @ '': '') (Argv ssh_cmd) rc) w')
           | (SpawnFailed, w') \<Rightarrow> (Inl OSError, w')))"

section \<open>get_user_info\<close>

text \<open>The hosts of a server line that select local execution.\<close>

definition local_hosts :: "string list" where
  "local_hosts = [''.'', ''localhost'', ''127.0.0.1'']"

definition lookup_cmd :: "string \<Rightarrow> string" where
  "lookup_cmd joined = ''ps -o user= -p '' @ joined"

text \<open>\<open>dict(zip(pids, users))\<close>: a later pair with the same key replaces an earlier one.\<close>

definition dict_zip :: "'k list \<Rightarrow> 'v list \<Rightarrow> ('k \<rightharpoonup> 'v)" where
  "dict_zip ks vs = map_of (rev (zip ks vs))"

text \<open>
  The \<open>try\<close> statement that \<open>get_user_info\<close> contains twice, once for the local and once
  for the remote command.
\<close>

definition lookup_users ::
  "env \<Rightarrow> string \<Rightarrow> string option list \<Rightarrow> command \<Rightarrow> world
     \<Rightarrow> (py_error + (string option \<rightharpoonup> string)) \<times> world" where
  "lookup_users env server pids c w =
     (case check_output env c (cmd_timeout env) w of
        (Output out, w') \<Rightarrow>
          (case decode env out of
             None \<Rightarrow> (Inl UnicodeDecodeError, w')
           | Some s \<Rightarrow> (Inr (dict_zip pids (split_on (CHR 0x0A) (strip s))), w'))
      | (TimeoutExpired, w') \<Rightarrow>
          (Inr Map.empty, logging_error (Error_msg (''Command timed out on '' @ server)) w')
      | (CalledProcessError rc, w') \<Rightarrow>
          (Inr Map.empty,
           logging_error (Error_exc (''Error getting user info on '' @ server @ '': '') c rc) w')
      | (SpawnFailed, w') \<Rightarrow> (Inl OSError, w'))"

definition get_user_info ::
  "env \<Rightarrow> string \<Rightarrow> string option list \<Rightarrow> world
     \<Rightarrow> (py_error + (string option \<rightharpoonup> string)) \<times> world" where
  "get_user_info env server pids w =
     (if pids = [] then (Inr Map.empty, w)
      else
        case join_opt '','' pids of
          Inl e \<Rightarrow> (Inl e, w)
        | Inr joined \<Rightarrow>
            (let remote_cmd = lookup_cmd joined in
             case py_split server of
               [] \<Rightarrow> (Inl IndexError, w)
             | host # _ \<Rightarrow>
                 if host \<in> set local_hosts then lookup_users env server pids (Shell remote_cmd) w
                 else
                   (case build_ssh_command env server remote_cmd of
                      Inl e \<Rightarrow> (Inl e, w)
                    | Inr ssh_cmd \<Rightarrow> lookup_users env server pids (Argv ssh_cmd) w)))"

section \<open>display_gpu_infos\<close>

text \<open>
  \<open>user_memory\<close> is a \<open>defaultdict(int)\<close>, which iterates in insertion order: a list of
  pairs with one pair per key. \<open>add_usage\<close> is \<open>user_memory[user] += m\<close>.
\<close>

fun add_usage :: "(string \<times> int) list \<Rightarrow> string \<Rightarrow> int \<Rightarrow> (string \<times> int) list" where
  "add_usage [] user m = [(user, 0 + m)]"
| "add_usage ((u, t) # rest) user m =
     (if u = user then (u, t + m) # rest else (u, t) # add_usage rest user m)"

text \<open>\<open>user_info.get(process["pid"], "Unknown")\<close>.\<close>

definition owner :: "(string option \<rightharpoonup> string) \<Rightarrow> process \<Rightarrow> string" where
  "owner user_info p = (case user_info (pid p) of None \<Rightarrow> ''Unknown'' | Some u \<Rightarrow> u)"

definition user_memory :: "(string option \<rightharpoonup> string) \<Rightarrow> process list \<Rightarrow> (string \<times> int) list" where
  "user_memory user_info procs =
     foldl (\<lambda>um p. add_usage um (owner user_info p) (used_memory p)) [] procs"

text \<open>
  The statements of the function work on the local variable \<open>row\<close> and on the world. A
  statement either completes or raises; a sequence of statements stops at the first one
  that raises, and what was done before stays done.
\<close>

type_synonym frame = "int \<times> world"

type_synonym stmt = "frame \<Rightarrow> py_error option \<times> frame"

fun run :: "stmt list \<Rightarrow> stmt" where
  "run [] f = (None, f)"
| "run (s # ss) f = (case s f of (None, f') \<Rightarrow> run ss f' | (Some e, f') \<Rightarrow> (Some e, f'))"

text \<open>\<open>stdscr.addstr(row, col, s, a)\<close> at the current \<open>row\<close>, and \<open>stdscr.addstr(s, a)\<close>.\<close>

definition addstr_at :: "env \<Rightarrow> int \<Rightarrow> string \<Rightarrow> attr \<Rightarrow> stmt" where
  "addstr_at env col s a =
     (\<lambda>(row, w). case curses_call env (Addstr_at row col s a) w of
        (ok, w') \<Rightarrow> (if ok then None else Some CursesError, (row, w')))"

definition addstr :: "env \<Rightarrow> string \<Rightarrow> attr \<Rightarrow> stmt" where
  "addstr env s a =
     (\<lambda>(row, w). case curses_call env (Addstr s a) w of
        (ok, w') \<Rightarrow> (if ok then None else Some CursesError, (row, w')))"

text \<open>\<open>row += 1\<close>.\<close>

definition next_row :: stmt where
  "next_row = (\<lambda>(row, w). (None, (row + 1, w)))"

text \<open>The body of the loop over \<open>user_memory.items()\<close>.\<close>

definition user_lines :: "env \<Rightarrow> int \<Rightarrow> string \<times> int \<Rightarrow> stmt list" where
  "user_lines env col = (\<lambda>(user, memory).
     [addstr_at env col ''  User: '' (color_pair 1),
      addstr env user (color_pair 4),
      addstr env '', Memory Used: '' (color_pair 1),
      addstr env (str_int memory @ '' MiB'') (color_pair 4),
      next_row])"

text \<open>From the comment "Display user information" to the end of the loop over the users.\<close>

definition show_users :: "env \<Rightarrow> string \<Rightarrow> int \<Rightarrow> gpu_info \<Rightarrow> stmt" where
  "show_users env server col gi =
     (\<lambda>(row, w).
        let pids = map pid (processes gi) in
        case get_user_info env server pids w of
          (Inl e, w') \<Rightarrow> (Some e, (row, w'))
        | (Inr user_info, w') \<Rightarrow>
            run (concat (map (user_lines env col) (user_memory user_info (processes gi))))
                (row, w'))"

text \<open>The body of the \<open>try\<close> statement inside the loop over the devices.\<close>

definition gpu_block :: "env \<Rightarrow> string \<Rightarrow> int \<Rightarrow> gpu_info \<Rightarrow> stmt" where
  "gpu_block env server col gi =
     run [addstr_at env col (''GPU '' @ str_opt (index gi) @ '' - '' @ str_opt (name gi)) A_NORMAL,
          next_row,
          addstr_at env col (''  Memory Total: '' @ str_int (memory_total gi) @ '' MiB'') A_NORMAL,
          next_row,
          addstr_at env col ''  Memory Used: '' (color_pair 1),
          addstr env (str_int (memory_used gi) @ '' MiB'') (color_pair 2),
          next_row,
          addstr_at env col ''  Memory Free: '' (color_pair 1),
          addstr env (str_int (memory_free gi) @ '' MiB'') (color_pair 3),
          next_row,
          show_users env server col gi,
          next_row]"

text \<open>
  The loop over the devices: it ends at the end of the list, at the \<open>break\<close> of the row
  check, or at the \<open>break\<close> of the handler of \<open>curses.error\<close>; any other exception leaves
  the function.
\<close>

fun gpu_loop :: "env \<Rightarrow> string \<Rightarrow> int \<Rightarrow> gpu_info list \<Rightarrow> stmt" where
  "gpu_loop env server col [] f = (None, f)"
| "gpu_loop env server col (gi # gis) f =
     (if fst f \<ge> LINES env - 1 then (None, f)
      else
        case gpu_block env server col gi f of
          (None, f') \<Rightarrow> gpu_loop env server col gis f'
        | (Some e, f') \<Rightarrow> (if e = CursesError then (None, f') else (Some e, f')))"

definition display_gpu_infos ::
  "env \<Rightarrow> string \<Rightarrow> gpu_info list \<Rightarrow> int \<Rightarrow> int \<Rightarrow> world \<Rightarrow> (py_error + int) \<times> world" where
  "display_gpu_infos env server gpu_infos col row_offset w =
     (case addstr_at env col (''Server: '' @ server) A_NORMAL (row_offset, w) of
        (Some e, (_, w1)) \<Rightarrow> (Inr row_offset, w1)
      | (None, (_, w1)) \<Rightarrow>
          (case gpu_loop env server col gpu_infos (row_offset + 1, w1) of
             (Some e, (_, w2)) \<Rightarrow> (Inl e, w2)
           | (None, (row, w2)) \<Rightarrow>
               (let w3 = (if row < LINES env - 1
                          then snd (snd (addstr_at env col
                                 (replicate (nat (COLS env div 2 - 1)) (CHR ''-'')) A_NORMAL (row, w2)))
                          else w2)
                in (Inr (row + 2), w3))))"

section \<open>main\<close>

text \<open>
  The conditional expression that fetches the telemetry of a server: local execution
  when the first token of the server line is a local host, the remote one otherwise.
\<close>

definition nvidiasmi_output :: "env \<Rightarrow> string \<Rightarrow> world \<Rightarrow> (py_error + bytes option) \<times> world" where
  "nvidiasmi_output env server w =
     (case py_split server of
        [] \<Rightarrow> (Inl IndexError, w)
      | host # _ \<Rightarrow>
          if host \<in> set local_hosts then run_nvidiasmi_local env w
          else run_nvidiasmi_remote env server (ssh_timeout env) (cmd_timeout env) w)"

text \<open>
  The body of the loop over the servers: the two branches of the source differ only in
  the column and in the offset they read and write. The state of the loop is the pair of
  column offsets.
\<close>

definition poll_server ::
  "env \<Rightarrow> int \<Rightarrow> nat \<Rightarrow> string \<Rightarrow> int \<times> int \<Rightarrow> world \<Rightarrow> (py_error + int \<times> int) \<times> world" where
  "poll_server env col_width i server offsets w =
     (let col = (if i mod 2 = 0 then 0 else col_width + 1);
          row_offset = (if i mod 2 = 0 then fst offsets else snd offsets) in
      case nvidiasmi_output env server w of
        (Inl e, w1) \<Rightarrow> (Inl e, w1)
      | (Inr out, w1) \<Rightarrow>
          (case get_gpu_infos (fromstring env) out of
             Inl e \<Rightarrow> (Inl e, w1)
           | Inr gpu_infos \<Rightarrow>
               (case display_gpu_infos env server gpu_infos col row_offset w1 of
                  (Inl e, w2) \<Rightarrow> (Inl e, w2)
                | (Inr row, w2) \<Rightarrow>
                    (Inr (if i mod 2 = 0 then (row, snd offsets) else (fst offsets, row)), w2))))"

text \<open>\<open>for i, server in enumerate(servers)\<close>, from index \<open>i\<close> on.\<close>

fun servers_loop ::
  "env \<Rightarrow> int \<Rightarrow> nat \<Rightarrow> string list \<Rightarrow> int \<times> int \<Rightarrow> world \<Rightarrow> (py_error + int \<times> int) \<times> world" where
  "servers_loop env col_width i [] offsets w = (Inr offsets, w)"
| "servers_loop env col_width i (server # rest) offsets w =
     (case poll_server env col_width i server offsets w of
        (Inl e, w') \<Rightarrow> (Inl e, w')
      | (Inr offsets', w') \<Rightarrow> servers_loop env col_width (Suc i) rest offsets' w')"

text \<open>The vertical separator: \<open>addch\<close> in every row, a \<open>curses.error\<close> passed over.\<close>

definition draw_separator :: "env \<Rightarrow> int \<Rightarrow> int \<Rightarrow> world \<Rightarrow> world" where
  "draw_separator env max_row col_width w =
     foldl (\<lambda>w' row. snd (curses_call env (Addch_at row col_width (CHR ''|'')) w')) w [0..max_row - 1]"

text \<open>
  One pass of the \<open>while True\<close> loop. \<open>stdscr.clear\<close> and \<open>stdscr.refresh\<close> are called outside
  any \<open>try\<close>: a \<open>curses.error\<close> of theirs leaves the pass. \<open>time.sleep\<close> raises
  \<open>ValueError\<close> on a negative interval. The result is the exception that ended the pass,
  if any.
\<close>

definition cycle :: "env \<Rightarrow> string list \<Rightarrow> world \<Rightarrow> py_error option \<times> world" where
  "cycle env servers w =
     (case curses_call env Clear w of
        (False, w0) \<Rightarrow> (Some CursesError, w0)
      | (True, w0) \<Rightarrow>
          (let (max_row, max_col) = getmaxyx env;
               col_width = max_col div 2 in
           case servers_loop env col_width 0 servers (0, 0) w0 of
             (Inl e, w1) \<Rightarrow> (Some e, w1)
           | (Inr offsets, w1) \<Rightarrow>
               (case curses_call env Refresh (draw_separator env max_row col_width w1) of
                  (False, w3) \<Rightarrow> (Some CursesError, w3)
                | (True, w3) \<Rightarrow>
                    if refresh_interval env < 0 then (Some ValueError, w3)
                    else (None, w3\<lparr>slept := slept w3 @ [refresh_interval env]\<rparr>))))"

text \<open>
  The loop \<open>while True\<close> has no exit of its own: it ends only when a pass raises. With
  \<open>n\<close> passes allowed, the result is \<open>Some e\<close> when a pass raised \<open>e\<close> (the exception
  that leaves \<open>main\<close> and ends the process), and \<open>None\<close> when the loop is still running
  after \<open>n\<close> passes.
\<close>

fun poll_loop :: "env \<Rightarrow> string list \<Rightarrow> nat \<Rightarrow> world \<Rightarrow> py_error option \<times> world" where
  "poll_loop env servers 0 w = (None, w)"
| "poll_loop env servers (Suc n) w =
     (case cycle env servers w of
        (Some e, w') \<Rightarrow> (Some e, w')
      | (None, w') \<Rightarrow> poll_loop env servers n w')"

text \<open>
  \<open>main\<close>: the servers are the stripped non-blank lines of the server file; when the
  file does not exist (\<open>None\<close>) an error is logged (the message, which names the file,
  is shortened here) and \<open>main\<close> returns. The colour pairs set up first have no part in
  what follows.
\<close>

datatype outcome = Returned | Raised py_error | Running

definition main :: "env \<Rightarrow> string list option \<Rightarrow> nat \<Rightarrow> world \<Rightarrow> outcome \<times> world" where
  "main env server_file n w =
     (case server_file of
        None \<Rightarrow> (Returned, logging_error (Error_msg ''Server file does not exist.'') w)
      | Some file_lines \<Rightarrow>
          (let servers = map strip (filter (\<lambda>line. strip line \<noteq> []) file_lines) in
           case poll_loop env servers n w of
             (Some e, w') \<Rightarrow> (Raised e, w')
           | (None, w') \<Rightarrow> (Running, w')))"

section \<open>Example inputs\<close>

text \<open>
  A window of the given size that accepts a positioned call exactly when the position
  lies inside it, and every other call.
\<close>

definition window_accepts :: "int \<Rightarrow> int \<Rightarrow> (call \<times> bool) list \<Rightarrow> call \<Rightarrow> bool" where
  "window_accepts nlines ncols history c =
     (case c of
        Addstr_at row col s a \<Rightarrow> 0 \<le> row \<and> row < nlines \<and> 0 \<le> col \<and> col < ncols
      | Addch_at row col ch \<Rightarrow> 0 \<le> row \<and> row < nlines \<and> 0 \<le> col \<and> col < ncols
      | _ \<Rightarrow> True)"

definition initial_world :: world where
  "initial_world = \<lparr>issued = [], logged = [], attempts = [], slept = []\<rparr>"

text \<open>
  One device with 8000 MiB of which 2000 are used, and one process 123 using 500 MiB;
  a second device whose total memory reads N/A.
\<close>

definition device_node :: "string \<Rightarrow> string \<Rightarrow> string \<Rightarrow> string \<Rightarrow> element" where
  "device_node minor mem_total proc_id proc_mem =
     Element ''gpu'' None
       [Element ''product_name'' (Some ''Tesla T4'') [],
        Element ''minor_number'' (Some minor) [],
        Element ''fb_memory_usage'' None
          [Element ''total'' (Some mem_total) [],
           Element ''used'' (Some ''2000 MiB'') [],
           Element ''free'' (Some ''6000 MiB'') []],
        Element ''processes'' None
          [Element ''process_info'' None
             [Element ''pid'' (Some proc_id) [],
              Element ''used_memory'' (Some proc_mem) []]]]"

definition good_log :: element where
  "good_log =
     Element ''nvidia_smi_log'' None
       [Element ''driver_version'' (Some ''535.54'') [],
        device_node ''0'' ''8000 MiB'' ''123'' ''500 MiB'',
        device_node ''1'' ''8000 MiB'' ''456'' ''700 MiB'']"

definition bad_log :: element where
  "bad_log =
     Element ''nvidia_smi_log'' None [device_node ''0'' ''N/A'' ''123'' ''500 MiB'']"

definition device0 :: gpu_info where
  "device0 = \<lparr>index = Some ''0'', name = Some ''Tesla T4'', memory_total = 8000,
              memory_used = 2000, memory_free = 6000,
              processes = [\<lparr>pid = Some ''123'', used_memory = 500\<rparr>]\<rparr>"

definition device1 :: gpu_info where
  "device1 = \<lparr>index = Some ''1'', name = Some ''Tesla T4'', memory_total = 8000,
              memory_used = 2000, memory_free = 6000,
              processes = [\<lparr>pid = Some ''456'', used_memory = 700\<rparr>]\<rparr>"

text \<open>
  A host whose diagnostic tool prints \<open>good\<close> (parsed to \<open>good_log\<close>) and whose lookup
  names alice for every process; the window has 24 rows and 80 columns.
\<close>

definition answers :: "proc_result \<Rightarrow> proc_result \<Rightarrow> invocation list \<Rightarrow> invocation \<Rightarrow> proc_result" where
  "answers telemetry lookup history iv =
     (case cmd iv of
        Shell s \<Rightarrow> lookup
      | Argv a \<Rightarrow> if a \<noteq> [] \<and> startswith (last a) ''ps '' then lookup else telemetry)"

definition parses :: "bytes \<Rightarrow> element option" where
  "parses raw =
     (if raw = ''good'' then Some good_log
      else if raw = ''bad'' then Some bad_log
      else None)"

definition example_env :: env where
  "example_env =
     \<lparr>ssh_user = None, ssh_timeout = 5, cmd_timeout = 10, refresh_interval = 1,
      LINES = 24, COLS = 80, getmaxyx = (24, 80),
      subprocess = answers (Output ''good'') (Output ''alice''),
      surface = window_accepts 24 80,
      fromstring = parses,
      decode = Some\<rparr>"

section \<open>Notions used in the statements and proofs\<close>

text \<open>A statement never moves \<open>row\<close> backwards.\<close>

definition mono_stmt :: "stmt \<Rightarrow> bool" where
  "mono_stmt s = (\<forall>f r f'. s f = (r, f') \<longrightarrow> fst f \<le> fst f')"

text \<open>
  A well-formed \<open>gpu\<close> node and the record it stands for: the node has a
  \<open>minor_number\<close> and a \<open>product_name\<close>, the three memory fields under
  \<open>fb_memory_usage\<close> read \<open><integer> <unit>\<close>, and every \<open>process_info\<close> under
  \<open>processes\<close> has a \<open>pid\<close> and a \<open>used_memory\<close> of that form.
\<close>

definition reads :: "element option \<Rightarrow> int \<Rightarrow> bool" where
  "reads x n = (\<exists>e u. x = Some e \<and> el_text e = Some (str_int n @ '' '' @ u))"

definition describes_process :: "process \<Rightarrow> element \<Rightarrow> bool" where
  "describes_process p node =
     ((\<exists>e. find_tag node ''pid'' = Some e \<and> el_text e = pid p)
      \<and> reads (find_tag node ''used_memory'') (used_memory p))"

definition describes :: "gpu_info \<Rightarrow> element \<Rightarrow> bool" where
  "describes gi node =
     ((\<exists>e. find_tag node ''minor_number'' = Some e \<and> el_text e = index gi)
      \<and> (\<exists>e. find_tag node ''product_name'' = Some e \<and> el_text e = name gi)
      \<and> reads (find2 node ''fb_memory_usage'' ''total'') (memory_total gi)
      \<and> reads (find2 node ''fb_memory_usage'' ''used'') (memory_used gi)
      \<and> reads (find2 node ''fb_memory_usage'' ''free'') (memory_free gi)
      \<and> list_all2 describes_process (processes gi) (findall2 node ''processes'' ''process_info''))"

text \<open>
  The command of an owner lookup for a list of process identifiers: \<open>ps\<close> with the
  identifiers joined by commas, run by the shell or as the last argument of \<open>ssh\<close>.
\<close>

definition lookup_command :: "string option list \<Rightarrow> command \<Rightarrow> bool" where
  "lookup_command pids c =
     (None \<notin> set pids \<and>
      (c = Shell (lookup_cmd (join '','' (map the pids)))
       \<or> (\<exists>pre. c = Argv (pre @ [lookup_cmd (join '','' (map the pids))]))))"

text \<open>The call that writes the header line of a host block.\<close>

definition header :: "string \<Rightarrow> int \<Rightarrow> int \<Rightarrow> call" where
  "header server col row_offset = Addstr_at row_offset col (''Server: '' @ server) A_NORMAL"










text \<open>
  \<open>device_lookup\<close>: the invocation is the owner lookup of one device, \<open>ps\<close> with all the
  process identifiers of that device joined by commas, under the command timeout.
  \<open>quiet\<close> and \<open>looked_up\<close> describe the commands a statement issues: none, or at most
  the lookup of the device.
\<close>

definition device_lookup :: "env \<Rightarrow> gpu_info \<Rightarrow> invocation \<Rightarrow> bool" where
  "device_lookup env gi iv =
     (lookup_command (map pid (processes gi)) (cmd iv) \<and> timeout iv = cmd_timeout env)"

definition has_processes :: "gpu_info \<Rightarrow> bool" where
  "has_processes gi = (processes gi \<noteq> [])"

definition quiet :: "frame \<Rightarrow> py_error option \<Rightarrow> frame \<Rightarrow> bool" where
  "quiet f r f' = (issued (snd f') = issued (snd f))"

definition looked_up :: "env \<Rightarrow> gpu_info \<Rightarrow> frame \<Rightarrow> py_error option \<Rightarrow> frame \<Rightarrow> bool" where
  "looked_up env gi f r f' =
     (\<exists>new. issued (snd f') = issued (snd f) @ new
        \<and> ((new = [] \<and> (\<not> has_processes gi \<or> r \<noteq> None))
           \<or> (has_processes gi \<and> (\<exists>iv. new = [iv] \<and> device_lookup env gi iv))))"

text \<open>
  \<open>first_seen\<close>: the elements of a list in the order of their first appearance, each once.
  \<open>total_of\<close>: the memory of the processes of one owner. \<open>usage_of\<close>: the total recorded for
  a user, 0 when there is none. \<open>user_texts\<close>: the texts written in the colour of the user
  lines. The processes of the users A, B, A with 100, 50 and 30 MiB.
\<close>

fun fresh :: "'a list \<Rightarrow> 'a list \<Rightarrow> 'a list" where
  "fresh seen [] = []"
| "fresh seen (x # xs) = (if x \<in> set seen then fresh seen xs else x # fresh (x # seen) xs)"

definition first_seen :: "'a list \<Rightarrow> 'a list" where
  "first_seen xs = fresh [] xs"

definition total_of :: "(string option \<rightharpoonup> string) \<Rightarrow> process list \<Rightarrow> string \<Rightarrow> int" where
  "total_of user_info procs u =
     sum_list (map used_memory (filter (\<lambda>p. owner user_info p = u) procs))"

definition usage_of :: "(string \<times> int) list \<Rightarrow> string \<Rightarrow> int" where
  "usage_of um u = (case map_of um u of None \<Rightarrow> 0 | Some t \<Rightarrow> t)"

definition three_processes :: "process list" where
  "three_processes =
     [\<lparr>pid = Some ''1'', used_memory = 100\<rparr>, \<lparr>pid = Some ''2'', used_memory = 50\<rparr>,
      \<lparr>pid = Some ''3'', used_memory = 30\<rparr>]"

definition two_owners :: "string option \<rightharpoonup> string" where
  "two_owners = [Some ''1'' \<mapsto> ''A'', Some ''2'' \<mapsto> ''B'', Some ''3'' \<mapsto> ''A'']"

fun user_texts :: "(call \<times> bool) list \<Rightarrow> string list" where
  "user_texts [] = []"
| "user_texts ((c, ok) # rest) =
     (case c of
        Addstr s a \<Rightarrow> (if a = color_pair 4 then s # user_texts rest else user_texts rest)
      | _ \<Rightarrow> user_texts rest)"

text \<open>
  The column of the server with index \<open>i\<close>, the offset of that column among the two
  offsets, and the two offsets after that column moved to \<open>row\<close>.
\<close>

definition column :: "int \<Rightarrow> nat \<Rightarrow> int" where
  "column col_width i = (if i mod 2 = 0 then 0 else col_width + 1)"

definition offset_of :: "nat \<Rightarrow> int \<times> int \<Rightarrow> int" where
  "offset_of i offsets = (if i mod 2 = 0 then fst offsets else snd offsets)"

definition with_offset :: "nat \<Rightarrow> int \<times> int \<Rightarrow> int \<Rightarrow> int \<times> int" where
  "with_offset i offsets row = (if i mod 2 = 0 then (row, snd offsets) else (fst offsets, row))"

text \<open>A host whose diagnostic tool prints \<open>bad\<close>, parsed to \<open>bad_log\<close>.\<close>

definition bad_env :: env where
  "bad_env = example_env\<lparr>subprocess := answers (Output ''bad'') (Output ''alice'')\<rparr>"

text \<open>
  A field whose text cannot be read as an integer: the node is there and has a text
  with a first token, and \<open>int\<close> raises \<open>ValueError\<close> on that token.
\<close>

definition not_integer :: "element option \<Rightarrow> bool" where
  "not_integer x =
     (\<exists>e t tok toks. x = Some e \<and> el_text e = Some t \<and> py_split t = tok # toks
        \<and> py_int tok = Inl ValueError)"

text \<open>
  The memory fields of a \<open>gpu\<close> node that parsing gets to, in the order of the dict
  literal of \<open>get_gpu_infos\<close>: the total memory once the index and the name are read; the
  used memory once the total is an integer; the free memory once the used one is; the
  used memory of a process once the three are, the processes before it are parsed and
  its own \<open>pid\<close> node is there.
\<close>

definition encounters :: "element \<Rightarrow> element option \<Rightarrow> bool" where
  "encounters g x =
     ((\<exists>ix nm. text_of (find_tag g ''minor_number'') = Inr ix
               \<and> text_of (find_tag g ''product_name'') = Inr nm)
      \<and> (x = find2 g ''fb_memory_usage'' ''total''
          \<or> (\<exists>mt. int_field (find2 g ''fb_memory_usage'' ''total'') = Inr mt)
            \<and> (x = find2 g ''fb_memory_usage'' ''used''
                \<or> (\<exists>mu. int_field (find2 g ''fb_memory_usage'' ''used'') = Inr mu)
                  \<and> (x = find2 g ''fb_memory_usage'' ''free''
                      \<or> (\<exists>mf. int_field (find2 g ''fb_memory_usage'' ''free'') = Inr mf)
                        \<and> (\<exists>ps p qs procs pd.
                              findall2 g ''processes'' ''process_info'' = ps @ p # qs
                              \<and> each parse_process ps = Inr procs
                              \<and> text_of (find_tag p ''pid'') = Inr pd
                              \<and> x = find_tag p ''used_memory'')))))"

text \<open>
  A log of two devices: the first is well formed, the second has a process whose used
  memory reads N/A. A host whose diagnostic tool prints that log.
\<close>

definition late_bad_log :: element where
  "late_bad_log =
     Element ''nvidia_smi_log'' None
       [device_node ''0'' ''8000 MiB'' ''123'' ''500 MiB'',
        device_node ''1'' ''8000 MiB'' ''456'' ''N/A'']"

definition late_bad_env :: env where
  "late_bad_env = bad_env\<lparr>fromstring := \<lambda>raw. Some late_bad_log\<rparr>"

section \<open>Integers and their text\<close>

declare str_nat.simps [simp del]

lemma digit_char_props:
  "d < 10 \<Longrightarrow> is_digit (digit_char d) \<and> digit_val (digit_char d) = d \<and> \<not> is_space (digit_char d)
     \<and> digit_char d \<noteq> CHR ''_'' \<and> digit_char d \<noteq> CHR ''-'' \<and> digit_char d \<noteq> CHR ''+''"
proof -
  assume "d < 10"
  then have "d \<in> {0,1,2,3,4,5,6,7,8,9}" by auto
  then show ?thesis
    by (elim insertE emptyE) (simp_all add: is_digit_def digit_char_def digit_val_def is_space_def)
qed

lemma str_nat_digits: "c \<in> set (str_nat n) \<Longrightarrow> \<exists>d < 10. c = digit_char d"
proof (induction n arbitrary: c rule: str_nat.induct)
  case (1 n)
  show ?case
  proof (cases "n < 10")
    case True
    then show ?thesis using "1.prems" by (auto simp: str_nat.simps[of n])
  next
    case False
    then have "c \<in> set (str_nat (n div 10)) \<or> c = digit_char (n mod 10)"
      using "1.prems" by (auto simp: str_nat.simps[of n])
    then show ?thesis
    proof
      assume "c \<in> set (str_nat (n div 10))"
      then show ?thesis using "1.IH" False by blast
    next
      assume "c = digit_char (n mod 10)"
      moreover have "n mod 10 < 10" by simp
      ultimately show ?thesis by blast
    qed
  qed
qed

lemma str_nat_nonempty: "str_nat n \<noteq> []"
  by (subst str_nat.simps) simp

lemma grouped_digits: "xs \<noteq> [] \<Longrightarrow> (\<And>c. c \<in> set xs \<Longrightarrow> is_digit c \<and> c \<noteq> CHR ''_'') \<Longrightarrow> grouped xs"
  by (induction xs rule: grouped.induct) auto

lemma digits_value_snoc:
  "c \<noteq> CHR ''_'' \<Longrightarrow> digits_value (xs @ [c]) = 10 * digits_value xs + digit_val c"
  by (simp add: digits_value_def)

lemma digits_value_str_nat: "digits_value (str_nat n) = n"
proof (induction n rule: str_nat.induct)
  case (1 n)
  show ?case
  proof (cases "n < 10")
    case True
    then show ?thesis
      using digit_char_props[of n] by (simp add: str_nat.simps[of n] digits_value_def)
  next
    case False
    have "digits_value (str_nat n) = 10 * digits_value (str_nat (n div 10)) + digit_val (digit_char (n mod 10))"
      using False digit_char_props[of "n mod 10"]
      by (simp add: str_nat.simps[of n] digits_value_snoc)
    also have "\<dots> = 10 * (n div 10) + n mod 10"
      using "1.IH" False digit_char_props[of "n mod 10"] by simp
    finally show ?thesis by simp
  qed
qed

lemma grouped_str_nat: "grouped (str_nat n)"
proof (rule grouped_digits[OF str_nat_nonempty])
  fix c assume "c \<in> set (str_nat n)"
  then obtain d where d: "d < 10" "c = digit_char d" using str_nat_digits by blast
  show "is_digit c \<and> c \<noteq> CHR ''_''" using digit_char_props[OF d(1)] d(2) by simp
qed

lemma str_nat_head: "\<exists>c cs. str_nat n = c # cs \<and> c \<noteq> CHR ''-'' \<and> c \<noteq> CHR ''+''"
proof -
  obtain c cs where e: "str_nat n = c # cs" using str_nat_nonempty by (cases "str_nat n") auto
  then have "c \<in> set (str_nat n)" by simp
  then obtain d where d: "d < 10" "c = digit_char d" using str_nat_digits by blast
  show ?thesis using e digit_char_props[OF d(1)] d(2) by simp
qed

lemma py_int_str_int: "py_int (str_int i) = Inr i"
proof (cases "i < 0")
  case True
  then show ?thesis
    by (simp add: str_int_def py_int_def grouped_str_nat digits_value_str_nat)
next
  case False
  obtain c cs where e: "str_nat (nat i) = c # cs" "c \<noteq> CHR ''-''" "c \<noteq> CHR ''+''"
    using str_nat_head by blast
  have "grouped (c # cs)" "digits_value (c # cs) = nat i"
    using grouped_str_nat[of "nat i"] digits_value_str_nat[of "nat i"] e by simp_all
  then show ?thesis using False e by (simp add: str_int_def py_int_def)
qed

lemma str_int_no_space: "c \<in> set (str_int i) \<Longrightarrow> \<not> is_space c"
proof -
  assume "c \<in> set (str_int i)"
  then have "c = CHR ''-'' \<or> (\<exists>n. c \<in> set (str_nat n))"
    by (auto simp: str_int_def split: if_splits)
  then show ?thesis
  proof
    assume "c = CHR ''-''" then show ?thesis by (simp add: is_space_def)
  next
    assume "\<exists>n. c \<in> set (str_nat n)"
    then obtain d where d: "d < 10" "c = digit_char d" using str_nat_digits by blast
    show ?thesis using digit_char_props[OF d(1)] d(2) by simp
  qed
qed

lemma str_int_nonempty: "str_int i \<noteq> []"
  by (simp add: str_int_def str_nat_nonempty)

lemma tokens_first:
  "(\<And>c. c \<in> set xs \<Longrightarrow> \<not> is_space c) \<Longrightarrow> cur @ xs \<noteq> [] \<Longrightarrow> is_space sp \<Longrightarrow>
     tokens cur (xs @ sp # u) = (cur @ xs) # tokens [] u"
  by (induction xs arbitrary: cur) auto

lemma leading_int_str_int: "leading_int (str_int n @ CHR '' '' # u) = Inr n"
proof -
  have "is_space (CHR '' '')" by (simp add: is_space_def)
  then have "tokens [] (str_int n @ CHR '' '' # u) = ([] @ str_int n) # tokens [] u"
    using str_int_no_space str_int_nonempty by (intro tokens_first) auto
  then show ?thesis by (simp add: leading_int_def py_split_def py_int_str_int)
qed

section \<open>Parsing the telemetry\<close>

lemma int_field_reads: "reads x n \<Longrightarrow> int_field x = Inr n"
  by (auto simp: reads_def int_field_def text_of_def bind_def leading_int_str_int)

lemma each_all2: "list_all2 (\<lambda>y x. f x = Inr y) ys xs \<Longrightarrow> each f xs = Inr ys"
  by (induction ys xs rule: list_all2_induct) (auto simp: bind_def)

lemma parse_process_describes: "describes_process p node \<Longrightarrow> parse_process node = Inr p"
  by (auto simp: describes_process_def parse_process_def text_of_def bind_def int_field_reads)

lemma parse_gpu_describes: "describes gi node \<Longrightarrow> parse_gpu node = Inr gi"
proof -
  assume d: "describes gi node"
  then have "list_all2 (\<lambda>y x. parse_process x = Inr y) (processes gi) (findall2 node ''processes'' ''process_info'')"
    by (auto simp: describes_def elim!: list_all2_mono intro: parse_process_describes)
  then have "each parse_process (findall2 node ''processes'' ''process_info'') = Inr (processes gi)"
    by (rule each_all2)
  then show ?thesis using d
    by (auto simp: describes_def parse_gpu_def text_of_def bind_def int_field_reads)
qed

text \<open>
  Claim C4. Without an output (\<open>None\<close>) the result is the empty list and no failure.
  When the output parses to a tree whose \<open>gpu\<close> nodes are well formed, \<open>get_gpu_infos\<close>
  returns exactly one record per node, in document order, each with the fields of its
  node and with the processes in the order met. A memory text \<open><integer> <unit>\<close> is read
  as its leading integer: \<open>1024 MiB\<close> gives 1024.
\<close>

theorem get_gpu_infos_well_formed:
  "get_gpu_infos xml None = Inr []
   \<and> (xml raw = Some root \<and> list_all2 describes gpu_infos (findall root ''gpu'') \<longrightarrow>
        get_gpu_infos xml (Some raw) = Inr gpu_infos
        \<and> length gpu_infos = length (findall root ''gpu''))
   \<and> leading_int (str_int n @ '' '' @ unit) = Inr n
   \<and> leading_int ''1024 MiB'' = Inr 1024"
proof -
  have none: "get_gpu_infos xml None = Inr []" by (simp add: get_gpu_infos_def)
  have some: "get_gpu_infos xml (Some raw) = Inr gpu_infos \<and> length gpu_infos = length (findall root ''gpu'')"
    if r: "xml raw = Some root" and d: "list_all2 describes gpu_infos (findall root ''gpu'')"
  proof -
    have "list_all2 (\<lambda>y x. parse_gpu x = Inr y) gpu_infos (findall root ''gpu'')"
      using d by (auto elim!: list_all2_mono intro: parse_gpu_describes)
    then have "each parse_gpu (findall root ''gpu'') = Inr gpu_infos" by (rule each_all2)
    then show ?thesis using r d by (simp add: get_gpu_infos_def list_all2_lengthD)
  qed
  have ex: "leading_int ''1024 MiB'' = Inr 1024"
    by (simp add: leading_int_def py_split_def is_space_def py_int_def is_digit_def digits_value_def digit_val_def)
  show ?thesis using none some ex leading_int_str_int by simp
qed

lemma str_int_examples:
  "str_int 8000 = ''8000''" "str_int 2000 = ''2000''" "str_int 6000 = ''6000''"
  "str_int 500 = ''500''" "str_int 700 = ''700''" "str_int 10 = ''10''"
  by (simp_all add: str_int_def str_nat.simps digit_char_def)

lemma reads_example: "reads (Some (Element t (Some (str_int n @ '' MiB'')) [])) n"
  unfolding reads_def by (intro exI[of _ "Element t (Some (str_int n @ '' MiB'')) []"] exI[of _ "''MiB''"]) simp

lemma describes_example:
  "describes
     \<lparr>index = Some minor, name = Some ''Tesla T4'', memory_total = mt, memory_used = 2000,
      memory_free = 6000, processes = [\<lparr>pid = Some proc_id, used_memory = pm\<rparr>]\<rparr>
     (device_node minor (str_int mt @ '' MiB'') proc_id (str_int pm @ '' MiB''))"
  using reads_example[of "''total''" mt] reads_example[of "''used''" 2000]
    reads_example[of "''free''" 6000] reads_example[of "''used_memory''" pm]
  by (simp add: describes_def describes_process_def device_node_def find_tag_def find2_def
      findall2_def findall_def first_def str_int_examples)

theorem get_gpu_infos_well_formed_witness:
  "parses ''good'' = Some good_log
   \<and> list_all2 describes [device0, device1] (findall good_log ''gpu'')
   \<and> get_gpu_infos parses (Some ''good'') = Inr [device0, device1]
   \<and> length [device0, device1] = length (findall good_log ''gpu'')"
proof -
  have p: "parses ''good'' = Some good_log" by (simp add: parses_def)
  have f: "findall good_log ''gpu''
           = [device_node ''0'' ''8000 MiB'' ''123'' ''500 MiB'',
              device_node ''1'' ''8000 MiB'' ''456'' ''700 MiB'']"
    by (simp add: findall_def good_log_def device_node_def)
  have d: "list_all2 describes [device0, device1] (findall good_log ''gpu'')"
    using describes_example[of "''0''" 8000 "''123''" 500]
      describes_example[of "''1''" 8000 "''456''" 700]
    by (simp add: f device0_def device1_def str_int_examples)
  show ?thesis
    using get_gpu_infos_well_formed[of parses "''good''" good_log "[device0, device1]"] p d
    by simp
qed

section \<open>Owner lookup\<close>

lemma lookup_users_effect:
  assumes "lookup_users env server pids c w = (r, w')"
  shows "issued w' = issued w @ [\<lparr>cmd = c, timeout = cmd_timeout env\<rparr>]
         \<and> attempts w' = attempts w \<and> slept w' = slept w
         \<and> (case subprocess env (issued w) \<lparr>cmd = c, timeout = cmd_timeout env\<rparr> of
               Output out \<Rightarrow>
                 logged w' = logged w
                 \<and> r = (case decode env out of
                          None \<Rightarrow> Inl UnicodeDecodeError
                        | Some s \<Rightarrow> Inr (dict_zip pids (split_on (CHR 0x0A) (strip s))))
             | TimeoutExpired \<Rightarrow>
                 r = Inr Map.empty
                 \<and> logged w' = logged w @ [Error_msg (''Command timed out on '' @ server)]
             | CalledProcessError rc \<Rightarrow>
                 r = Inr Map.empty
                 \<and> logged w' = logged w @ [Error_exc (''Error getting user info on '' @ server @ '': '') c rc]
             | SpawnFailed \<Rightarrow> r = Inl OSError \<and> logged w' = logged w)"
  using assms
  by (cases "subprocess env (issued w) \<lparr>cmd = c, timeout = cmd_timeout env\<rparr>")
     (auto simp: lookup_users_def check_output_def logging_error_def Let_def split: option.splits)

lemma build_ssh_command_last:
  "build_ssh_command env server remote_cmd = Inr ssh_cmd \<Longrightarrow> \<exists>pre. ssh_cmd = pre @ [remote_cmd]"
proof -
  assume h: "build_ssh_command env server remote_cmd = Inr ssh_cmd"
  then obtain host port where "parse_server server = Inr (host, port)"
    by (cases "parse_server server") (auto simp: build_ssh_command_def bind_def)
  then have "ssh_cmd = ([''ssh''] @ (if truthy port then [''-p'', the port] else [])
            @ [if truthy (ssh_user env) then the (ssh_user env) @ ''@'' @ host else host]) @ [remote_cmd]"
    using h by (simp add: build_ssh_command_def bind_def)
  then show ?thesis by blast
qed

lemma build_ssh_command_error:
  "build_ssh_command env server remote_cmd = Inl e \<Longrightarrow> e = IndexError"
  by (cases "py_split server")
     (auto simp: build_ssh_command_def parse_server_def bind_def)

lemma get_user_info_cases:
  assumes "get_user_info env server pids w = (r, w')"
  shows "(w' = w \<and> ((pids = [] \<and> r = Inr Map.empty) \<or> r = Inl TypeError \<or> r = Inl IndexError))
         \<or> (pids \<noteq> [] \<and> (\<exists>c. lookup_command pids c \<and> lookup_users env server pids c w = (r, w')))"
proof (cases "pids = []")
  case True
  then show ?thesis using assms by (simp add: get_user_info_def)
next
  case False
  show ?thesis
  proof (cases "None \<in> set pids")
    case True
    then show ?thesis using assms False by (auto simp: get_user_info_def join_opt_def)
  next
    case nn: False
    let ?rc = "lookup_cmd (join '','' (map the pids))"
    show ?thesis
    proof (cases "py_split server")
      case Nil
      then show ?thesis using assms False nn by (auto simp: get_user_info_def join_opt_def)
    next
      case (Cons host rest)
      show ?thesis
      proof (cases "host \<in> set local_hosts")
        case True
        then have "lookup_users env server pids (Shell ?rc) w = (r, w')"
          using assms False nn Cons by (simp add: get_user_info_def join_opt_def)
        moreover have "lookup_command pids (Shell ?rc)" using nn by (simp add: lookup_command_def)
        ultimately show ?thesis using False by blast
      next
        case remote: False
        show ?thesis
        proof (cases "build_ssh_command env server ?rc")
          case (Inl e)
          then have "r = Inl e \<and> w' = w" using assms False nn Cons remote
            by (auto simp: get_user_info_def join_opt_def)
          then show ?thesis using build_ssh_command_error[OF Inl] by simp
        next
          case (Inr ssh_cmd)
          then have "lookup_users env server pids (Argv ssh_cmd) w = (r, w')"
            using assms False nn Cons remote by (simp add: get_user_info_def join_opt_def)
          moreover have "lookup_command pids (Argv ssh_cmd)"
            using nn build_ssh_command_last[OF Inr] by (auto simp: lookup_command_def)
          ultimately show ?thesis using False by blast
        qed
      qed
    qed
  qed
qed

text \<open>
  Claim C8. With no process identifiers \<open>get_user_info\<close> returns the empty map and
  leaves the world as it is: no command is issued. When the lookup command that was
  issued timed out or exited with a non-zero status, the result is the empty map, one
  entry is added to the log, and nothing is raised.
\<close>

theorem get_user_info_empty_or_failed:
  "get_user_info env server [] w = (Inr Map.empty, w)
   \<and> (get_user_info env server pids w = (r, w') \<and> issued w' = issued w @ [iv]
        \<and> (subprocess env (issued w) iv = TimeoutExpired
             \<or> (\<exists>rc. subprocess env (issued w) iv = CalledProcessError rc)) \<longrightarrow>
        r = Inr Map.empty \<and> (\<exists>entry. logged w' = logged w @ [entry]))"
proof -
  have "r = Inr Map.empty \<and> (\<exists>entry. logged w' = logged w @ [entry])"
    if g: "get_user_info env server pids w = (r, w')" and i: "issued w' = issued w @ [iv]"
      and f: "subprocess env (issued w) iv = TimeoutExpired
               \<or> (\<exists>rc. subprocess env (issued w) iv = CalledProcessError rc)"
  proof -
    have "w' \<noteq> w" using i by auto
    then obtain c where c: "lookup_users env server pids c w = (r, w')"
      using get_user_info_cases[OF g] by blast
    note eff = lookup_users_effect[OF c]
    then have "iv = \<lparr>cmd = c, timeout = cmd_timeout env\<rparr>" using i by simp
    then show ?thesis using eff f by auto
  qed
  then show ?thesis by (simp add: get_user_info_def)
qed

theorem get_user_info_empty_or_failed_witness:
  "issued (snd (get_user_info (example_env\<lparr>subprocess := \<lambda>h i. TimeoutExpired\<rparr>) ''localhost'' [Some ''123''] initial_world))
     = issued initial_world @ [\<lparr>cmd = Shell ''ps -o user= -p 123'', timeout = 10\<rparr>]
   \<and> fst (get_user_info (example_env\<lparr>subprocess := \<lambda>h i. TimeoutExpired\<rparr>) ''localhost'' [Some ''123''] initial_world)
     = Inr Map.empty
   \<and> logged (snd (get_user_info (example_env\<lparr>subprocess := \<lambda>h i. TimeoutExpired\<rparr>) ''localhost'' [Some ''123''] initial_world))
     = [Error_msg ''Command timed out on localhost'']"
proof -
  let ?env = "example_env\<lparr>subprocess := \<lambda>h i. TimeoutExpired\<rparr>"
  let ?g = "get_user_info ?env ''localhost'' [Some ''123''] initial_world"
  have sp: "py_split ''localhost'' = [''localhost'']" by (simp add: py_split_def is_space_def)
  have ev: "issued (snd ?g) = issued initial_world @ [\<lparr>cmd = Shell ''ps -o user= -p 123'', timeout = 10\<rparr>]"
       "logged (snd ?g) = [Error_msg ''Command timed out on localhost'']"
    by (simp_all add: get_user_info_def join_opt_def sp local_hosts_def lookup_users_def check_output_def
        lookup_cmd_def example_env_def initial_world_def logging_error_def Let_def)
  have "subprocess ?env (issued initial_world) \<lparr>cmd = Shell ''ps -o user= -p 123'', timeout = 10\<rparr> = TimeoutExpired"
    by simp
  with get_user_info_empty_or_failed[of ?env "''localhost''" initial_world "[Some ''123'']" "fst ?g" "snd ?g"
      "\<lparr>cmd = Shell ''ps -o user= -p 123'', timeout = 10\<rparr>"] ev
  show ?thesis by simp
qed

section \<open>Statements and the rows they write\<close>

lemma run_rule:
  assumes refl: "\<And>f. P f None f"
    and trans: "\<And>f g h r. P f None g \<Longrightarrow> P g r h \<Longrightarrow> P f r h"
    and each: "\<And>s f r f'. s \<in> set ss \<Longrightarrow> s f = (r, f') \<Longrightarrow> P f r f'"
    and run: "run ss f = (r, f')"
  shows "P f r f'"
  using each run
proof (induction ss arbitrary: f)
  case Nil
  then show ?case using refl by simp
next
  case (Cons s ss)
  obtain r1 f1 where sf: "s f = (r1, f1)" by (cases "s f")
  have p1: "P f r1 f1" using Cons.prems(1)[of s f r1 f1] sf by simp
  show ?case
  proof (cases r1)
    case None
    then have "run ss f1 = (r, f')" using Cons.prems(2) sf by simp
    have rest: "run ss f1 = (r, f')" using None Cons.prems(2) sf by simp
    have "P f1 r f'"
    proof (rule Cons.IH)
      fix s' g r' g' assume "s' \<in> set ss" "s' g = (r', g')"
      then show "P g r' g'" using Cons.prems(1)[of s' g r' g'] by simp
    next
      show "run ss f1 = (r, f')" by (rule rest)
    qed
    then show ?thesis using p1 None trans by blast
  next
    case (Some e)
    then show ?thesis using Cons.prems(2) sf p1 by simp
  qed
qed

lemma run_append:
  "run (ss @ ts) f = (case run ss f of (None, g) \<Rightarrow> run ts g | (Some e, g) \<Rightarrow> (Some e, g))"
  by (induction ss arbitrary: f) (auto split: prod.splits option.splits)

lemma curses_call_effect:
  "curses_call env c w = (surface env (attempts w) c,
     w\<lparr>attempts := attempts w @ [(c, surface env (attempts w) c)]\<rparr>)"
  by (simp add: curses_call_def Let_def)

lemma addstr_at_effect:
  "addstr_at env col s a (row, w) =
     (if surface env (attempts w) (Addstr_at row col s a) then None else Some CursesError,
      (row, w\<lparr>attempts := attempts w @ [(Addstr_at row col s a, surface env (attempts w) (Addstr_at row col s a))]\<rparr>))"
  by (simp add: addstr_at_def curses_call_effect)

lemma addstr_effect:
  "addstr env s a (row, w) =
     (if surface env (attempts w) (Addstr s a) then None else Some CursesError,
      (row, w\<lparr>attempts := attempts w @ [(Addstr s a, surface env (attempts w) (Addstr s a))]\<rparr>))"
  by (simp add: addstr_def curses_call_effect)

lemma mono_stmtD: "mono_stmt s \<Longrightarrow> s f = (r, f') \<Longrightarrow> fst f \<le> fst f'"
  unfolding mono_stmt_def by blast

lemma run_mono: "(\<And>s. s \<in> set ss \<Longrightarrow> mono_stmt s) \<Longrightarrow> mono_stmt (run ss)"
  unfolding mono_stmt_def
proof (intro allI impI)
  fix f r f'
  assume a: "\<And>s. s \<in> set ss \<Longrightarrow> \<forall>f r f'. s f = (r, f') \<longrightarrow> fst f \<le> fst f'"
    and r: "run ss f = (r, f')"
  show "fst f \<le> fst f'"
  proof (rule run_rule[where P = "\<lambda>f r f'. fst f \<le> fst f'", OF _ _ _ r])
    show "\<And>f :: frame. fst f \<le> fst f" by simp
    show "\<And>(f :: frame) (g :: frame) (h :: frame) r :: py_error option.
            fst f \<le> fst g \<Longrightarrow> fst g \<le> fst h \<Longrightarrow> fst f \<le> fst h" by simp
    show "\<And>s f r f'. s \<in> set ss \<Longrightarrow> s f = (r, f') \<Longrightarrow> fst f \<le> fst f'" using a by blast
  qed
qed

lemma mono_addstr_at: "mono_stmt (addstr_at env col s a)"
  by (auto simp: mono_stmt_def addstr_at_effect)

lemma mono_addstr: "mono_stmt (addstr env s a)"
  by (auto simp: mono_stmt_def addstr_effect)

lemma mono_next_row: "mono_stmt next_row"
  by (auto simp: mono_stmt_def next_row_def)

lemma mono_user_lines: "s \<in> set (user_lines env col um) \<Longrightarrow> mono_stmt s"
  by (cases um) (auto simp: user_lines_def mono_addstr_at mono_addstr mono_next_row)

lemma show_users_cases:
  assumes "show_users env server col gi (row, w) = (r, f')"
  obtains (raised) e w1 where "get_user_info env server (map pid (processes gi)) w = (Inl e, w1)"
      "r = Some e" "f' = (row, w1)"
    | (listed) user_info w1 where "get_user_info env server (map pid (processes gi)) w = (Inr user_info, w1)"
      "run (concat (map (user_lines env col) (user_memory user_info (processes gi)))) (row, w1) = (r, f')"
proof -
  obtain res w1 where g: "get_user_info env server (map pid (processes gi)) w = (res, w1)"
    by (cases "get_user_info env server (map pid (processes gi)) w")
  show ?thesis
  proof (cases res)
    case (Inl e)
    then show ?thesis using assms g raised by (auto simp: show_users_def)
  next
    case (Inr ui)
    then show ?thesis using assms g listed by (auto simp: show_users_def)
  qed
qed

lemma mono_show_users: "mono_stmt (show_users env server col gi)"
  unfolding mono_stmt_def
proof (intro allI impI)
  fix f r f' assume h: "show_users env server col gi f = (r, f')"
  obtain row w where f: "f = (row, w)" by (cases f)
  from h[unfolded f] show "fst f \<le> fst f'"
  proof (cases rule: show_users_cases)
    case (raised e w1)
    then show ?thesis using f by simp
  next
    case (listed ui w1)
    have "mono_stmt (run (concat (map (user_lines env col) (user_memory ui (processes gi)))))"
      by (rule run_mono) (auto simp: mono_user_lines)
    from mono_stmtD[OF this listed(2)] show ?thesis using f by simp
  qed
qed

lemma mono_gpu_block: "mono_stmt (gpu_block env server col gi)"
  unfolding gpu_block_def
  by (rule run_mono) (auto simp: mono_addstr_at mono_addstr mono_next_row mono_show_users)

lemma gpu_loop_cases:
  assumes "gpu_loop env server col (gi # gis) f = (r, f')"
  obtains (full) "LINES env - 1 \<le> fst f" "r = None" "f' = f"
    | (went_on) f1 where "fst f < LINES env - 1" "gpu_block env server col gi f = (None, f1)"
        "gpu_loop env server col gis f1 = (r, f')"
    | (broke) "fst f < LINES env - 1" "gpu_block env server col gi f = (Some CursesError, f')" "r = None"
    | (raised) e where "fst f < LINES env - 1" "gpu_block env server col gi f = (Some e, f')"
        "e \<noteq> CursesError" "r = Some e"
proof (cases "LINES env - 1 \<le> fst f")
  case True
  have "(r, f') = (None, f)" using assms True by simp
  then show ?thesis using full True by blast
next
  case False
  obtain r1 f1 where b: "gpu_block env server col gi f = (r1, f1)"
    by (cases "gpu_block env server col gi f")
  show ?thesis
  proof (cases r1)
    case None
    have "gpu_loop env server col gis f1 = (r, f')" using assms b False None by simp
    then show ?thesis using went_on[of f1] b None False by simp
  next
    case (Some e)
    show ?thesis
    proof (cases "e = CursesError")
      case True
      have "(r, f') = (None, f1)" using assms b False Some True by simp
      then show ?thesis using broke b Some True False by simp
    next
      case ne: False
      have "(r, f') = (Some e, f1)" using assms b False Some ne by simp
      then show ?thesis using raised[of e] b Some ne False by simp
    qed
  qed
qed

lemma mono_gpu_loop: "mono_stmt (gpu_loop env server col gis)"
proof (induction gis)
  case Nil
  then show ?case by (simp add: mono_stmt_def)
next
  case (Cons gi gis)
  show ?case
    unfolding mono_stmt_def
  proof (intro allI impI)
    fix f r f' assume h: "gpu_loop env server col (gi # gis) f = (r, f')"
    then show "fst f \<le> fst f'"
    proof (cases rule: gpu_loop_cases)
      case full
      then show ?thesis by simp
    next
      case (went_on f1)
      then show ?thesis
        using mono_stmtD[OF mono_gpu_block went_on(2)] mono_stmtD[OF Cons went_on(3)] by simp
    next
      case broke
      then show ?thesis using mono_stmtD[OF mono_gpu_block broke(2)] by simp
    next
      case (raised e)
      then show ?thesis using mono_stmtD[OF mono_gpu_block raised(2)] by simp
    qed
  qed
qed

lemma gpu_loop_no_curses_error: "gpu_loop env server col gis f = (r, f') \<Longrightarrow> r \<noteq> Some CursesError"
proof (induction gis arbitrary: f)
  case Nil
  then show ?case by simp
next
  case (Cons gi gis)
  from Cons.prems show ?case
    by (cases rule: gpu_loop_cases) (use Cons.IH in auto)
qed

lemma display_cases:
  assumes "display_gpu_infos env server gpu_infos col row_offset w = (r, w')"
  obtains (rejected) "\<not> surface env (attempts w) (header server col row_offset)"
      "r = Inr row_offset" "w' = w\<lparr>attempts := attempts w @ [(header server col row_offset, False)]\<rparr>"
    | (raised) e row2 where "surface env (attempts w) (header server col row_offset)"
      "gpu_loop env server col gpu_infos
         (row_offset + 1, w\<lparr>attempts := attempts w @ [(header server col row_offset, True)]\<rparr>)
       = (Some e, (row2, w'))" "r = Inl e"
    | (returned) row w2 where "surface env (attempts w) (header server col row_offset)"
      "gpu_loop env server col gpu_infos
         (row_offset + 1, w\<lparr>attempts := attempts w @ [(header server col row_offset, True)]\<rparr>)
       = (None, (row, w2))" "r = Inr (row + 2)"
      "w' = (if row < LINES env - 1
             then snd (snd (addstr_at env col (replicate (nat (COLS env div 2 - 1)) (CHR ''-'')) A_NORMAL (row, w2)))
             else w2)"
proof (cases "surface env (attempts w) (header server col row_offset)")
  case False
  then show ?thesis using assms rejected
    by (auto simp: display_gpu_infos_def addstr_at_effect header_def)
next
  case True
  let ?w1 = "w\<lparr>attempts := attempts w @ [(header server col row_offset, True)]\<rparr>"
  obtain r2 row2 w2 where l: "gpu_loop env server col gpu_infos (row_offset + 1, ?w1) = (r2, (row2, w2))"
    by (metis surj_pair)
  show ?thesis
  proof (cases r2)
    case None
    then show ?thesis using assms True l returned[of row2 w2]
      by (auto simp: display_gpu_infos_def addstr_at_effect header_def Let_def)
  next
    case (Some e)
    then show ?thesis using assms True l raised[of e row2]
      by (auto simp: display_gpu_infos_def addstr_at_effect header_def Let_def)
  qed
qed

text \<open>
  Claim C10. The row offset that \<open>display_gpu_infos\<close> returns is never smaller than the
  one it started from; it is the starting offset exactly when curses rejected the header
  line, and at least three rows further when the header was accepted.
\<close>

theorem display_gpu_infos_row_offset:
  "display_gpu_infos env server gpu_infos col row_offset w = (Inr r, w') \<Longrightarrow>
     row_offset \<le> r
     \<and> (r = row_offset) = (\<not> surface env (attempts w) (header server col row_offset))
     \<and> (surface env (attempts w) (header server col row_offset) \<longrightarrow> row_offset + 3 \<le> r)"
proof -
  assume "display_gpu_infos env server gpu_infos col row_offset w = (Inr r, w')"
  then show ?thesis
  proof (cases rule: display_cases)
    case rejected
    then show ?thesis by simp
  next
    case (raised e row2)
    then show ?thesis by simp
  next
    case (returned row w2)
    have "row_offset + 1 \<le> row" using mono_stmtD[OF mono_gpu_loop returned(2)] by simp
    then show ?thesis using returned by simp
  qed
qed

theorem display_gpu_infos_row_offset_witness:
  "fst (display_gpu_infos example_env ''10.0.0.1 -p22'' [] 0 0 initial_world) = Inr 3
   \<and> surface example_env (attempts initial_world) (header ''10.0.0.1 -p22'' 0 0)
   \<and> (0::int) + 3 \<le> 3"
proof -
  let ?d = "display_gpu_infos example_env ''10.0.0.1 -p22'' [] 0 0 initial_world"
  have e1: "fst ?d = Inr 3"
    by (simp add: display_gpu_infos_def addstr_at_effect example_env_def window_accepts_def
        initial_world_def Let_def)
  have e: "?d = (Inr 3, snd ?d)" using e1 by (metis prod.collapse)
  have s: "surface example_env (attempts initial_world) (header ''10.0.0.1 -p22'' 0 0)"
    by (simp add: example_env_def window_accepts_def header_def)
  show ?thesis using display_gpu_infos_row_offset[OF e] e1 s by simp
qed

section \<open>Statements and the calls they make\<close>


























section \<open>Bounds of the rendering\<close>























section \<open>The lookups issued while rendering\<close>

lemma quiet_addstr_at: "addstr_at env col s a f = (r, f') \<Longrightarrow> quiet f r f'"
  by (cases f) (auto simp: quiet_def addstr_at_effect)

lemma quiet_addstr: "addstr env s a f = (r, f') \<Longrightarrow> quiet f r f'"
  by (cases f) (auto simp: quiet_def addstr_effect)

lemma quiet_next_row: "next_row f = (r, f') \<Longrightarrow> quiet f r f'"
  by (cases f) (auto simp: quiet_def next_row_def)

lemma quiet_run:
  assumes "\<And>s f r f'. s \<in> set ss \<Longrightarrow> s f = (r, f') \<Longrightarrow> quiet f r f'"
    and "run ss f = (r, f')"
  shows "quiet f r f'"
proof (rule run_rule[where P = quiet, OF _ _ assms])
  show "\<And>f. quiet f None f" by (simp add: quiet_def)
  show "\<And>f g h r. quiet f None g \<Longrightarrow> quiet g r h \<Longrightarrow> quiet f r h" by (simp add: quiet_def)
qed

lemma quiet_user_lines:
  assumes "s \<in> set (user_lines env col um)" and "s f = (r, f')"
  shows "quiet f r f'"
proof -
  obtain user memory where um: "um = (user, memory)" by (cases um)
  have "(\<exists>t a. s = addstr_at env col t a) \<or> (\<exists>t a. s = addstr env t a) \<or> s = next_row"
    using assms(1) unfolding um user_lines_def by auto
  then show ?thesis using assms(2)
    by (elim disjE exE) (auto intro: quiet_addstr_at quiet_addstr quiet_next_row)
qed

lemma get_user_info_issued:
  assumes "get_user_info env server pids w = (r, w')"
  shows "(issued w' = issued w \<and> (pids = [] \<or> (\<exists>e. r = Inl e)))
         \<or> (pids \<noteq> [] \<and> (\<exists>iv. issued w' = issued w @ [iv] \<and> lookup_command pids (cmd iv)
               \<and> timeout iv = cmd_timeout env))"
proof -
  from get_user_info_cases[OF assms] show ?thesis
  proof
    assume "w' = w \<and> (pids = [] \<and> r = Inr Map.empty \<or> r = Inl TypeError \<or> r = Inl IndexError)"
    then show ?thesis by auto
  next
    assume "pids \<noteq> [] \<and> (\<exists>c. lookup_command pids c \<and> lookup_users env server pids c w = (r, w'))"
    then obtain c where c: "pids \<noteq> []" "lookup_command pids c" "lookup_users env server pids c w = (r, w')"
      by blast
    from lookup_users_effect[OF c(3)]
    have "issued w' = issued w @ [\<lparr>cmd = c, timeout = cmd_timeout env\<rparr>]" by simp
    moreover have "lookup_command pids (cmd \<lparr>cmd = c, timeout = cmd_timeout env\<rparr>)"
      "timeout \<lparr>cmd = c, timeout = cmd_timeout env\<rparr> = cmd_timeout env"
      using c(2) by simp_all
    ultimately show ?thesis using c(1) by blast
  qed
qed

lemma looked_up_show_users:
  assumes "show_users env server col gi f = (r, f')"
  shows "looked_up env gi f r f'"
proof -
  obtain row w where f: "f = (row, w)" by (cases f)
  have np: "(map pid (processes gi) = []) = (\<not> has_processes gi)" by (simp add: has_processes_def)
  from assms[unfolded f] show ?thesis
  proof (cases rule: show_users_cases)
    case (raised e w1)
    from get_user_info_issued[OF raised(1)] show ?thesis
      unfolding looked_up_def f device_lookup_def using raised(2,3) np by auto
  next
    case (listed ui w1)
    have "quiet (row, w1) r f'"
    proof (rule quiet_run[OF _ listed(2)])
      fix s g r' g'
      assume "s \<in> set (concat (map (user_lines env col) (user_memory ui (processes gi))))"
        and sg: "s g = (r', g')"
      then obtain um where "s \<in> set (user_lines env col um)" by auto
      then show "quiet g r' g'" using sg by (rule quiet_user_lines)
    qed
    then have q: "issued (snd f') = issued w1" by (simp add: quiet_def)
    from get_user_info_issued[OF listed(1)] show ?thesis
      unfolding looked_up_def f device_lookup_def using q np by auto
  qed
qed

lemma looked_up_gpu_block:
  assumes "gpu_block env server col gi f = (r, f')"
  shows "looked_up env gi f r f'"
proof -
  let ?pre = "[addstr_at env col (''GPU '' @ str_opt (index gi) @ '' - '' @ str_opt (name gi)) A_NORMAL,
          next_row,
          addstr_at env col (''  Memory Total: '' @ str_int (memory_total gi) @ '' MiB'') A_NORMAL,
          next_row,
          addstr_at env col ''  Memory Used: '' (color_pair 1),
          addstr env (str_int (memory_used gi) @ '' MiB'') (color_pair 2),
          next_row,
          addstr_at env col ''  Memory Free: '' (color_pair 1),
          addstr env (str_int (memory_free gi) @ '' MiB'') (color_pair 3),
          next_row]"
  have split: "gpu_block env server col gi = run (?pre @ [show_users env server col gi, next_row])"
    unfolding gpu_block_def by simp
  obtain r1 f1 where p: "run ?pre f = (r1, f1)" by (cases "run ?pre f")
  have q1: "quiet f r1 f1"
  proof (rule quiet_run[OF _ p])
    fix s g r' g'
    assume "s \<in> set ?pre" and sg: "s g = (r', g')"
    then have "(\<exists>t a. s = addstr_at env col t a) \<or> (\<exists>t a. s = addstr env t a) \<or> s = next_row"
      by (simp only: set_simps insert_iff empty_iff) blast
    then show "quiet g r' g'" using sg
      by (elim disjE exE) (auto intro: quiet_addstr_at quiet_addstr quiet_next_row)
  qed
  show ?thesis
  proof (cases r1)
    case (Some e)
    then have "r = Some e \<and> f' = f1" using assms p unfolding split run_append by simp
    then show ?thesis using q1 unfolding looked_up_def quiet_def by simp
  next
    case None
    obtain r2 f2 where s: "show_users env server col gi f1 = (r2, f2)"
      by (cases "show_users env server col gi f1")
    have l: "looked_up env gi f1 r2 f2" using looked_up_show_users[OF s] .
    have l': "looked_up env gi f r2 f2"
      using l q1 unfolding looked_up_def quiet_def by simp
    show ?thesis
    proof (cases r2)
      case (Some e)
      then have "r = Some e \<and> f' = f2" using assms p None s unfolding split run_append by simp
      then show ?thesis using l' Some by simp
    next
      case n2: None
      have "r = None \<and> issued (snd f') = issued (snd f2)"
        using assms p None s n2 unfolding split run_append
        by (cases f2) (auto simp: next_row_def)
      then show ?thesis using l' n2 unfolding looked_up_def by simp
    qed
  qed
qed

lemma lookups_gpu_loop:
  "gpu_loop env server col gis f = (r, f') \<Longrightarrow>
     \<exists>k new. k \<le> length gis \<and> issued (snd f') = issued (snd f) @ new
        \<and> list_all2 (device_lookup env) (filter has_processes (take k gis)) new"
proof (induction gis arbitrary: f)
  case Nil
  then have "f' = f" by simp
  then show ?case by simp
next
  case (Cons gi gis)
  have zero: ?case if "issued (snd f') = issued (snd f)"
    by (intro exI[of _ 0] exI[of _ "[]"]) (use that in simp)
  have one: ?case if "has_processes gi" "issued (snd f') = issued (snd f) @ [iv]" "device_lookup env gi iv" for iv
    by (intro exI[of _ 1] exI[of _ "[iv]"]) (use that in simp)
  have stop: ?case if "looked_up env gi f r1 f'" for r1
    using that zero one unfolding looked_up_def by auto
  from Cons.prems show ?case
  proof (cases rule: gpu_loop_cases)
    case full
    then show ?thesis using zero by simp
  next
    case (went_on f1)
    from Cons.IH[OF went_on(3)] obtain k new where
      k: "k \<le> length gis" "issued (snd f') = issued (snd f1) @ new"
        "list_all2 (device_lookup env) (filter has_processes (take k gis)) new"
      by blast
    from looked_up_gpu_block[OF went_on(2)] obtain n1 where
      n1: "issued (snd f1) = issued (snd f) @ n1"
        "(n1 = [] \<and> \<not> has_processes gi) \<or> (has_processes gi \<and> (\<exists>iv. n1 = [iv] \<and> device_lookup env gi iv))"
      unfolding looked_up_def by auto
    have "list_all2 (device_lookup env) (filter has_processes (take (Suc k) (gi # gis))) (n1 @ new)"
      using n1(2) k(3) by auto
    moreover have "issued (snd f') = issued (snd f) @ n1 @ new" using k(2) n1(1) by simp
    moreover have "Suc k \<le> length (gi # gis)" using k(1) by simp
    ultimately show ?thesis by blast
  next
    case broke
    show ?thesis using stop[OF looked_up_gpu_block[OF broke(2)]] .
  next
    case (raised e)
    show ?thesis using stop[OF looked_up_gpu_block[OF raised(2)]] .
  qed
qed

lemma lookups_display:
  assumes "display_gpu_infos env server gpu_infos col row_offset w = (r, w')"
  shows "\<exists>k new. k \<le> length gpu_infos \<and> issued w' = issued w @ new
        \<and> list_all2 (device_lookup env) (filter has_processes (take k gpu_infos)) new"
  using assms
proof (cases rule: display_cases)
  case rejected
  then show ?thesis by (intro exI[of _ 0] exI[of _ "[]"]) simp
next
  case (raised e row2)
  from lookups_gpu_loop[OF raised(2)] show ?thesis by simp
next
  case (returned row w2)
  have "issued w' = issued w2" using returned(4) by (simp add: addstr_at_effect)
  then show ?thesis using lookups_gpu_loop[OF returned(2)] by simp
qed

text \<open>
  Claim C3, as the code has it. The owner lookup is issued inside the loop over the
  devices, once per device. A device block that completes issues exactly one lookup
  command when the device has processes, listing all the identifiers of that device
  joined by commas, and none when it has none. A host block issues these lookups in
  device order for the devices the loop reached: one per device with processes, never one
  per process, and never one for the whole host.
\<close>

theorem lookup_per_device:
  "(gpu_block env server col gi f = (None, f') \<longrightarrow>
      (\<exists>new. issued (snd f') = issued (snd f) @ new
         \<and> list_all2 (device_lookup env) (filter has_processes [gi]) new))
   \<and> (display_gpu_infos env server gpu_infos col row_offset w = (r, w') \<longrightarrow>
      (\<exists>k new. k \<le> length gpu_infos \<and> issued w' = issued w @ new
         \<and> list_all2 (device_lookup env) (filter has_processes (take k gpu_infos)) new))"
proof -
  have "\<exists>new. issued (snd f') = issued (snd f) @ new
         \<and> list_all2 (device_lookup env) (filter has_processes [gi]) new"
    if "gpu_block env server col gi f = (None, f')"
    using looked_up_gpu_block[OF that] unfolding looked_up_def by auto
  then show ?thesis using lookups_display by blast
qed

lemma split_example: "py_split ''10.0.0.1 -p22'' = [''10.0.0.1'', ''-p22'']"
  by (simp add: py_split_def is_space_def)

lemma ssh_example:
  "build_ssh_command example_env ''10.0.0.1 -p22'' remote_cmd
     = Inr [''ssh'', ''-p'', ''22'', ''10.0.0.1'', remote_cmd]"
  by (simp add: build_ssh_command_def parse_server_def split_example bind_def startswith_def
      truthy_def example_env_def)

lemma get_user_info_example:
  "get_user_info example_env ''10.0.0.1 -p22'' [Some p] w
     = (Inr [Some p \<mapsto> ''alice''],
        w\<lparr>issued := issued w @
             [\<lparr>cmd = Argv [''ssh'', ''-p'', ''22'', ''10.0.0.1'', ''ps -o user= -p '' @ p],
               timeout = 10\<rparr>]\<rparr>)"
proof -
  have st: "split_on (CHR 0x0A) (strip ''alice'') = [''alice'']"
    by (simp add: split_on_def strip_def is_space_def)
  have an: "subprocess example_env h \<lparr>cmd = Argv [''ssh'', ''-p'', ''22'', ''10.0.0.1'', ''ps -o user= -p '' @ p],
               timeout = 10\<rparr> = Output ''alice''" for h
    by (simp add: example_env_def answers_def startswith_def)
  have misc: "cmd_timeout example_env = 10" "decode example_env = Some"
    by (simp_all add: example_env_def)
  show ?thesis
    by (simp add: get_user_info_def join_opt_def split_example local_hosts_def ssh_example
        lookup_cmd_def lookup_users_def check_output_def an[simplified] misc st dict_zip_def Let_def)
qed

lemma example_env_fields:
  "LINES example_env = 24" "COLS example_env = 80" "surface example_env = window_accepts 24 80"
  "cmd_timeout example_env = 10" "ssh_timeout example_env = 5" "getmaxyx example_env = (24, 80)"
  "refresh_interval example_env = 1" "fromstring example_env = parses" "decode example_env = Some"
  by (simp_all add: example_env_def)

lemmas eval_users =
  display_gpu_infos_def gpu_block_def addstr_at_effect addstr_effect next_row_def
  example_env_fields window_accepts_def initial_world_def device0_def str_opt_def str_int_examples
  Let_def device1_def show_users_def get_user_info_example user_memory_def owner_def
  user_lines_def

text \<open>
  A host with two devices of one process each: two lookup commands are issued, each with
  the identifier of its own device.
\<close>

theorem lookup_per_device_not_per_host:
  "map cmd (issued (snd (display_gpu_infos example_env ''10.0.0.1 -p22'' [device0, device1] 0 0
                          initial_world)))
     = [Argv [''ssh'', ''-p'', ''22'', ''10.0.0.1'', ''ps -o user= -p 123''],
        Argv [''ssh'', ''-p'', ''22'', ''10.0.0.1'', ''ps -o user= -p 456'']]"
  by (simp add: eval_users)

theorem lookup_per_device_witness:
  "fst (gpu_block example_env ''10.0.0.1 -p22'' 0 device0 (1, initial_world)) = None
   \<and> (\<exists>new. issued (snd (snd (gpu_block example_env ''10.0.0.1 -p22'' 0 device0 (1, initial_world))))
                = issued initial_world @ new
          \<and> list_all2 (device_lookup example_env) [device0] new)
   \<and> (\<exists>k new. k \<le> length [device0, device1]
          \<and> issued (snd (display_gpu_infos example_env ''10.0.0.1 -p22'' [device0, device1] 0 0
                            initial_world))
              = issued initial_world @ new
          \<and> list_all2 (device_lookup example_env)
               (filter has_processes (take k [device0, device1])) new)"
proof -
  let ?b = "gpu_block example_env ''10.0.0.1 -p22'' 0 device0 (1, initial_world)"
  let ?d = "display_gpu_infos example_env ''10.0.0.1 -p22'' [device0, device1] 0 0 initial_world"
  have e: "fst ?b = None" by (simp add: eval_users)
  have b: "?b = (None, snd ?b)" using e by (metis prod.collapse)
  have f: "filter has_processes [device0] = [device0]" by (simp add: has_processes_def device0_def)
  note t = lookup_per_device[of example_env "''10.0.0.1 -p22''" 0 device0 "(1, initial_world)" "snd ?b"
      "[device0, device1]" 0 initial_world "fst ?d" "snd ?d"]
  have 1: "\<exists>new. issued (snd (snd ?b)) = issued initial_world @ new
          \<and> list_all2 (device_lookup example_env) [device0] new"
    using t b f by simp
  have 2: "\<exists>k new. k \<le> length [device0, device1]
          \<and> issued (snd ?d) = issued initial_world @ new
          \<and> list_all2 (device_lookup example_env)
               (filter has_processes (take k [device0, device1])) new"
    using t by simp
  show ?thesis using e 1 2 by blast
qed

section \<open>Memory per user\<close>

lemma fresh_set_cong: "set a = set b \<Longrightarrow> fresh a xs = fresh b xs"
proof (induction xs arbitrary: a b)
  case Nil
  then show ?case by simp
next
  case (Cons x xs)
  have "fresh (x # a) xs = fresh (x # b) xs" using Cons.prems by (intro Cons.IH) simp
  then show ?case using Cons.prems Cons.IH[of a b] by simp
qed

lemma fresh_distinct: "distinct (fresh seen xs) \<and> set (fresh seen xs) \<inter> set seen = {}"
proof (induction xs arbitrary: seen)
  case Nil
  then show ?case by simp
next
  case (Cons x xs)
  show ?case using Cons.IH[of seen] Cons.IH[of "x # seen"] by auto
qed

lemma keys_add_usage:
  "map fst (add_usage um u m) = (if u \<in> set (map fst um) then map fst um else map fst um @ [u])"
  by (induction um u m rule: add_usage.induct) auto

lemma keys_foldl:
  "foldl (\<lambda>ks u. if u \<in> set ks then ks else ks @ [u]) ks us = ks @ fresh ks us"
proof (induction us arbitrary: ks)
  case Nil
  then show ?case by simp
next
  case (Cons u us)
  show ?case
  proof (cases "u \<in> set ks")
    case True
    then show ?thesis using Cons.IH[of ks] by simp
  next
    case False
    have "fresh (ks @ [u]) us = fresh (u # ks) us" by (rule fresh_set_cong) auto
    then show ?thesis using False Cons.IH[of "ks @ [u]"] by simp
  qed
qed

lemma keys_aggregate:
  "map fst (foldl (\<lambda>um p. add_usage um (owner ui p) (used_memory p)) acc ps)
     = foldl (\<lambda>ks u. if u \<in> set ks then ks else ks @ [u]) (map fst acc) (map (owner ui) ps)"
proof (induction ps arbitrary: acc)
  case Nil
  then show ?case by simp
next
  case (Cons p ps)
  show ?case using Cons.IH[of "add_usage acc (owner ui p) (used_memory p)"]
    by (simp add: keys_add_usage)
qed

lemma usage_add_usage:
  "usage_of (add_usage um u m) v = (if v = u then usage_of um u + m else usage_of um v)"
  by (induction um u m rule: add_usage.induct) (auto simp: usage_of_def)

lemma usage_aggregate:
  "usage_of (foldl (\<lambda>um p. add_usage um (owner ui p) (used_memory p)) acc ps) v
     = usage_of acc v + total_of ui ps v"
proof (induction ps arbitrary: acc)
  case Nil
  then show ?case by (simp add: total_of_def)
next
  case (Cons p ps)
  show ?case using Cons.IH[of "add_usage acc (owner ui p) (used_memory p)"]
    by (simp add: usage_add_usage total_of_def)
qed

lemma pairs_of_keys:
  "distinct (map fst xs) \<Longrightarrow> map (\<lambda>k. (k, usage_of xs k)) (map fst xs) = xs"
proof (induction xs)
  case Nil
  then show ?case by simp
next
  case (Cons x xs)
  obtain k v where x: "x = (k, v)" by (cases x)
  have d: "distinct (map fst xs)" and nk: "k \<notin> set (map fst xs)" using Cons.prems x by simp_all
  have h1: "usage_of ((k, v) # xs) k = v" by (simp add: usage_of_def)
  have h2: "usage_of ((k, v) # xs) k' = usage_of xs k'" if "k' \<in> set (map fst xs)" for k'
    using that nk by (auto simp: usage_of_def)
  have "map (\<lambda>k'. (k', usage_of ((k, v) # xs) k')) (map fst xs)
        = map (\<lambda>k'. (k', usage_of xs k')) (map fst xs)"
    by (rule map_cong[OF refl]) (simp add: h2)
  also have "\<dots> = xs" by (rule Cons.IH[OF d])
  finally have "map (\<lambda>k'. (k', usage_of ((k, v) # xs) k')) (map fst xs) = xs" .
  then have "map (\<lambda>k'. (k', usage_of ((k, v) # xs) k')) (map fst ((k, v) # xs)) = (k, v) # xs"
    using h1 by simp
  then show ?case unfolding x .
qed

lemma user_memory_first_seen:
  "user_memory user_info procs
     = map (\<lambda>u. (u, total_of user_info procs u)) (first_seen (map (owner user_info) procs))"
proof -
  let ?xs = "user_memory user_info procs"
  have k: "map fst ?xs = first_seen (map (owner user_info) procs)"
    unfolding user_memory_def first_seen_def using keys_aggregate[of user_info "[]" procs]
    by (simp add: keys_foldl)
  have d: "distinct (map fst ?xs)" unfolding k first_seen_def using fresh_distinct by blast
  have v: "usage_of ?xs u = total_of user_info procs u" for u
    unfolding user_memory_def using usage_aggregate[of user_info "[]" procs u]
    by (simp add: usage_of_def)
  have "?xs = map (\<lambda>u. (u, usage_of ?xs u)) (map fst ?xs)" using pairs_of_keys[OF d] by simp
  then show ?thesis unfolding k v .
qed

text \<open>
  Claim C5, as the code has it. The totals per user are built afresh for every device,
  from the processes of that device only. For the processes of one device: the owner of a
  process is looked up in the owner map, \<open>Unknown\<close> when its identifier is missing; the
  memory of the process is added to the total of that owner; the users come out in the
  order in which they were first seen. The users A: 100, B: 50, A: 30 give A 130 and B 50,
  A before B. The user lines of a device are those of its own totals.
\<close>

theorem user_memory_per_device:
  "user_memory user_info procs
     = map (\<lambda>u. (u, total_of user_info procs u)) (first_seen (map (owner user_info) procs))
   \<and> (user_info (pid p) = None \<longrightarrow> owner user_info p = ''Unknown'')
   \<and> user_memory two_owners three_processes = [(''A'', 130), (''B'', 50)]
   \<and> (show_users env server col gi (row, w) = (r, f')
        \<and> get_user_info env server (map pid (processes gi)) w = (Inr user_info', w1) \<longrightarrow>
      run (concat (map (user_lines env col)
             (map (\<lambda>u. (u, total_of user_info' (processes gi) u))
                (first_seen (map (owner user_info') (processes gi))))))
          (row, w1) = (r, f'))"
proof -
  have ex: "user_memory two_owners three_processes = [(''A'', 130), (''B'', 50)]"
    by (simp add: user_memory_def two_owners_def three_processes_def owner_def)
  have su: "run (concat (map (user_lines env col)
             (map (\<lambda>u. (u, total_of user_info' (processes gi) u))
                (first_seen (map (owner user_info') (processes gi))))))
          (row, w1) = (r, f')"
    if "show_users env server col gi (row, w) = (r, f')"
      and "get_user_info env server (map pid (processes gi)) w = (Inr user_info', w1)"
    using that by (simp add: show_users_def user_memory_first_seen[symmetric])
  show ?thesis using user_memory_first_seen ex su by (simp add: owner_def)
qed

text \<open>
  A host with two devices whose processes belong to the same user: the user is shown
  twice, with 500 MiB under the first device and 700 MiB under the second; the two are
  not added up.
\<close>

theorem user_memory_not_per_host:
  "user_texts (attempts (snd (display_gpu_infos example_env ''10.0.0.1 -p22'' [device0, device1] 0 0
                                initial_world)))
     = [''alice'', ''500 MiB'', ''alice'', ''700 MiB'']"
  by (simp add: eval_users)

theorem user_memory_per_device_witness:
  "Map.empty (pid \<lparr>pid = Some ''9'', used_memory = 1\<rparr>) = (None :: string option)
   \<and> owner Map.empty \<lparr>pid = Some ''9'', used_memory = 1\<rparr> = ''Unknown''
   \<and> user_memory two_owners three_processes = [(''A'', 130), (''B'', 50)]
   \<and> fst (get_user_info example_env ''10.0.0.1 -p22'' (map pid (processes device0)) initial_world)
       = Inr [Some ''123'' \<mapsto> ''alice'']
   \<and> run (concat (map (user_lines example_env 0)
             (map (\<lambda>u. (u, total_of [Some ''123'' \<mapsto> ''alice''] (processes device0) u))
                (first_seen (map (owner [Some ''123'' \<mapsto> ''alice'']) (processes device0))))))
          (5, snd (get_user_info example_env ''10.0.0.1 -p22'' (map pid (processes device0))
                     initial_world))
       = show_users example_env ''10.0.0.1 -p22'' 0 device0 (5, initial_world)"
proof -
  let ?g = "get_user_info example_env ''10.0.0.1 -p22'' (map pid (processes device0)) initial_world"
  let ?s = "show_users example_env ''10.0.0.1 -p22'' 0 device0 (5, initial_world)"
  have g1: "fst ?g = Inr [Some ''123'' \<mapsto> ''alice'']"
    by (simp add: device0_def get_user_info_example)
  have g: "?g = (Inr [Some ''123'' \<mapsto> ''alice''], snd ?g)" using g1 by (metis prod.collapse)
  have s: "?s = (fst ?s, snd ?s)" by simp
  note t = user_memory_per_device[where user_info = Map.empty
      and p = "\<lparr>pid = Some ''9'', used_memory = 1\<rparr>" and procs = "[]"
      and env = example_env and server = "''10.0.0.1 -p22''" and col = 0 and gi = device0
      and row = 5 and w = initial_world and r = "fst ?s" and f' = "snd ?s"
      and user_info' = "[Some ''123'' \<mapsto> ''alice'']" and ?w1.0 = "snd ?g"]
  have a: "owner Map.empty \<lparr>pid = Some ''9'', used_memory = 1\<rparr> = ''Unknown''" using t by simp
  have b: "user_memory two_owners three_processes = [(''A'', 130), (''B'', 50)]" using t by simp
  have c: "run (concat (map (user_lines example_env 0)
             (map (\<lambda>u. (u, total_of [Some ''123'' \<mapsto> ''alice''] (processes device0) u))
                (first_seen (map (owner [Some ''123'' \<mapsto> ''alice'']) (processes device0))))))
          (5, snd ?g) = (fst ?s, snd ?s)"
    using t s g by blast
  show ?thesis using a b c g1 by simp
qed

section \<open>The keys of the owner map\<close>

lemma dom_dict_zip: "dom (dict_zip ks vs) = set (take (length vs) ks)"
proof -
  have "dom (dict_zip ks vs) = set (map fst (zip ks vs))"
    unfolding dict_zip_def by (simp add: dom_map_of_conv_image_fst)
  also have "\<dots> = set (take (min (length ks) (length vs)) ks)" by (simp add: map_fst_zip_take)
  also have "\<dots> = set (take (length vs) ks)" by (simp add: min_def)
  finally show ?thesis .
qed

text \<open>
  Claim C2, as the code has it. The map that \<open>get_user_info\<close> returns has keys among the
  identifiers it was given, and not all of them: after a lookup that printed lines, the
  keys are the identifiers at the positions for which a line was returned; after a lookup
  that timed out or failed, and when no lookup was issued, the map is empty. An
  identifier that is not a key is not stored with a sentinel: it is shown as \<open>Unknown\<close>
  by the default of the lookup in the map when the memory is added up.
\<close>

theorem owner_map_keys:
  assumes "get_user_info env server pids w = (Inr m, w')"
  shows "dom m \<subseteq> set pids
     \<and> (m (pid p) = None \<longrightarrow> owner m p = ''Unknown'')
     \<and> (m (pid p) = Some u \<longrightarrow> owner m p = u)
     \<and> (issued w' = issued w @ [iv] \<and> subprocess env (issued w) iv = Output out
          \<and> decode env out = Some s \<longrightarrow>
        m = dict_zip pids (split_on (CHR 0x0A) (strip s))
        \<and> dom m = set (take (length (split_on (CHR 0x0A) (strip s))) pids))
     \<and> (issued w' = issued w @ [iv]
          \<and> (subprocess env (issued w) iv = TimeoutExpired
               \<or> (\<exists>rc. subprocess env (issued w) iv = CalledProcessError rc)) \<longrightarrow>
        dom m = {})
     \<and> (issued w' = issued w \<longrightarrow> dom m = {})"
proof -
  have own: "(m (pid p) = None \<longrightarrow> owner m p = ''Unknown'') \<and> (m (pid p) = Some u \<longrightarrow> owner m p = u)"
    by (simp add: owner_def)
  from get_user_info_cases[OF assms] show ?thesis
  proof
    assume "w' = w \<and> (pids = [] \<and> Inr m = Inr Map.empty \<or> Inr m = Inl TypeError \<or> Inr m = Inl IndexError)"
    then have "w' = w" "m = Map.empty" by auto
    then show ?thesis using own by simp
  next
    assume "pids \<noteq> [] \<and> (\<exists>c. lookup_command pids c \<and> lookup_users env server pids c w = (Inr m, w'))"
    then obtain c where c: "lookup_users env server pids c w = (Inr m, w')" by blast
    let ?iv = "\<lparr>cmd = c, timeout = cmd_timeout env\<rparr>"
    note eff = lookup_users_effect[OF c]
    have i: "issued w' = issued w @ [?iv]" using eff by simp
    have m: "m = Map.empty \<or> (\<exists>out s. subprocess env (issued w) ?iv = Output out \<and> decode env out = Some s
               \<and> m = dict_zip pids (split_on (CHR 0x0A) (strip s)))"
      using eff by (cases "subprocess env (issued w) ?iv") (auto split: option.splits)
    have sub: "dom m \<subseteq> set pids"
      using m
    proof
      assume "m = Map.empty"
      then show ?thesis by simp
    next
      assume "\<exists>out s. subprocess env (issued w) ?iv = Output out \<and> decode env out = Some s
               \<and> m = dict_zip pids (split_on (CHR 0x0A) (strip s))"
      then obtain s where "m = dict_zip pids (split_on (CHR 0x0A) (strip s))" by blast
      then show ?thesis using set_take_subset by (simp add: dom_dict_zip)
    qed
    have ok: "m = dict_zip pids (split_on (CHR 0x0A) (strip s))
        \<and> dom m = set (take (length (split_on (CHR 0x0A) (strip s))) pids)"
      if "issued w' = issued w @ [iv]" "subprocess env (issued w) iv = Output out" "decode env out = Some s"
    proof -
      have "iv = ?iv" using that(1) i by simp
      then show ?thesis using eff that(2,3) by (simp add: dom_dict_zip)
    qed
    have failed: "dom m = {}"
      if "issued w' = issued w @ [iv]" "subprocess env (issued w) iv = TimeoutExpired
               \<or> (\<exists>rc. subprocess env (issued w) iv = CalledProcessError rc)"
    proof -
      have "iv = ?iv" using that(1) i by simp
      then show ?thesis using eff that(2) by auto
    qed
    have "issued w' \<noteq> issued w" using i by simp
    then show ?thesis using own sub ok failed by blast
  qed
qed

lemma split_localhost: "py_split ''localhost'' = [''localhost'']"
  by (simp add: py_split_def is_space_def)

lemma get_user_info_local_example:
  "get_user_info example_env ''localhost'' [Some ''123'', Some ''456''] initial_world
     = (Inr [Some ''123'' \<mapsto> ''alice''],
        initial_world\<lparr>issued := [\<lparr>cmd = Shell ''ps -o user= -p 123,456'', timeout = 10\<rparr>]\<rparr>)"
proof -
  have st: "split_on (CHR 0x0A) (strip ''alice'') = [''alice'']"
    by (simp add: split_on_def strip_def is_space_def)
  have an: "subprocess example_env h \<lparr>cmd = Shell x, timeout = 10\<rparr> = Output ''alice''" for h x
    by (simp add: example_env_def answers_def)
  show ?thesis
    by (simp add: get_user_info_def join_opt_def split_localhost local_hosts_def
        lookup_cmd_def lookup_users_def check_output_def an example_env_fields st dict_zip_def
        initial_world_def Let_def)
qed

text \<open>
  After a lookup that timed out the map is empty, and after a lookup that printed one line
  for two identifiers the second identifier is not a key.
\<close>

theorem owner_map_lacks_keys:
  "fst (get_user_info (example_env\<lparr>subprocess := \<lambda>h i. TimeoutExpired\<rparr>) ''localhost'' [Some ''123'']
          initial_world) = Inr Map.empty
   \<and> fst (get_user_info example_env ''localhost'' [Some ''123'', Some ''456''] initial_world)
       = Inr [Some ''123'' \<mapsto> ''alice'']
   \<and> [Some ''123'' \<mapsto> ''alice''] (Some ''456'') = None"
proof -
  have "fst (get_user_info (example_env\<lparr>subprocess := \<lambda>h i. TimeoutExpired\<rparr>) ''localhost'' [Some ''123'']
          initial_world) = Inr Map.empty"
    by (simp add: get_user_info_def join_opt_def split_localhost local_hosts_def lookup_users_def
        check_output_def lookup_cmd_def example_env_def initial_world_def logging_error_def Let_def)
  then show ?thesis by (simp add: get_user_info_local_example)
qed

theorem owner_map_keys_witness:
  "fst (get_user_info example_env ''localhost'' [Some ''123'', Some ''456''] initial_world)
     = Inr [Some ''123'' \<mapsto> ''alice'']
   \<and> subprocess example_env (issued initial_world)
        \<lparr>cmd = Shell ''ps -o user= -p 123,456'', timeout = 10\<rparr> = Output ''alice''
   \<and> decode example_env ''alice'' = Some ''alice''
   \<and> [Some ''123'' \<mapsto> ''alice''] (pid \<lparr>pid = Some ''456'', used_memory = 700\<rparr>) = None
   \<and> owner [Some ''123'' \<mapsto> ''alice''] \<lparr>pid = Some ''456'', used_memory = 700\<rparr> = ''Unknown''
   \<and> dom [Some ''123'' \<mapsto> ''alice'']
       = set (take (length (split_on (CHR 0x0A) (strip ''alice''))) [Some ''123'', Some ''456''])
   \<and> get_user_info example_env ''localhost'' [] initial_world = (Inr Map.empty, initial_world)
   \<and> dom (Map.empty :: string option \<rightharpoonup> string) = {}"
proof -
  have e: "get_user_info example_env ''localhost'' [] initial_world = (Inr Map.empty, initial_world)"
    by (simp add: get_user_info_def)
  have z: "dom (Map.empty :: string option \<rightharpoonup> string) = {}"
    using owner_map_keys[OF e] by simp
  let ?w' = "initial_world\<lparr>issued := [\<lparr>cmd = Shell ''ps -o user= -p 123,456'', timeout = 10\<rparr>]\<rparr>"
  have sub: "subprocess example_env (issued initial_world)
        \<lparr>cmd = Shell ''ps -o user= -p 123,456'', timeout = 10\<rparr> = Output ''alice''"
    by (simp add: example_env_def answers_def)
  have dec: "decode example_env ''alice'' = Some ''alice''" by (simp add: example_env_fields)
  have iss: "issued ?w' = issued initial_world @ [\<lparr>cmd = Shell ''ps -o user= -p 123,456'', timeout = 10\<rparr>]"
    by (simp add: initial_world_def)
  note t = owner_map_keys[OF get_user_info_local_example,
      where p = "\<lparr>pid = Some ''456'', used_memory = 700\<rparr>"
        and iv = "\<lparr>cmd = Shell ''ps -o user= -p 123,456'', timeout = 10\<rparr>"
        and out = "''alice''" and s = "''alice''"]
  have a: "owner [Some ''123'' \<mapsto> ''alice''] \<lparr>pid = Some ''456'', used_memory = 700\<rparr> = ''Unknown''"
    using t by simp
  have b: "dom [Some ''123'' \<mapsto> ''alice'']
       = set (take (length (split_on (CHR 0x0A) (strip ''alice''))) [Some ''123'', Some ''456''])"
    using t sub dec iss by blast
  show ?thesis using a b sub dec e z by (simp add: get_user_info_local_example)
qed

section \<open>Fetching the telemetry\<close>

lemma run_nvidiasmi_local_effect:
  assumes "run_nvidiasmi_local env w = (r, w')"
  shows "issued w' = issued w @ [\<lparr>cmd = Argv [''nvidia-smi'', ''-q'', ''-x''], timeout = cmd_timeout env\<rparr>]
     \<and> attempts w' = attempts w \<and> slept w' = slept w
     \<and> (case subprocess env (issued w) \<lparr>cmd = Argv [''nvidia-smi'', ''-q'', ''-x''], timeout = cmd_timeout env\<rparr> of
           Output out \<Rightarrow> r = Inr (Some out) \<and> logged w' = logged w
         | TimeoutExpired \<Rightarrow>
             r = Inr None \<and> logged w' = logged w @ [Error_msg ''nvidia-smi command timed out'']
         | CalledProcessError rc \<Rightarrow>
             r = Inr None
             \<and> logged w' = logged w @ [Error_exc ''nvidia-smi command failed: '' (Argv [''nvidia-smi'', ''-q'', ''-x'']) rc]
         | SpawnFailed \<Rightarrow> r = Inl OSError \<and> logged w' = logged w)"
  using assms
  by (cases "subprocess env (issued w) \<lparr>cmd = Argv [''nvidia-smi'', ''-q'', ''-x''], timeout = cmd_timeout env\<rparr>")
     (auto simp: run_nvidiasmi_local_def check_output_def logging_error_def Let_def)

lemma run_nvidiasmi_remote_effect:
  assumes "run_nvidiasmi_remote env server ssh_to cmd_to w = (r, w')"
  shows "(w' = w \<and> r = Inl IndexError)
     \<or> (\<exists>ssh_cmd. build_ssh_command env server (nvidiasmi_remote_cmd cmd_to) = Inr ssh_cmd
          \<and> issued w' = issued w @ [\<lparr>cmd = Argv ssh_cmd, timeout = ssh_to\<rparr>]
          \<and> attempts w' = attempts w \<and> slept w' = slept w
          \<and> (case subprocess env (issued w) \<lparr>cmd = Argv ssh_cmd, timeout = ssh_to\<rparr> of
               Output out \<Rightarrow> r = Inr (Some out) \<and> logged w' = logged w
             | TimeoutExpired \<Rightarrow>
                 r = Inr None
                 \<and> logged w' = logged w @ [Error_msg (''Timeout while connecting to '' @ server)]
             | CalledProcessError rc \<Rightarrow>
                 r = Inr None
                 \<and> logged w' = logged w
                      @ [Error_exc (''Error running nvidia-smi on '' @ server @ '': '') (Argv ssh_cmd) rc]
             | SpawnFailed \<Rightarrow> r = Inl OSError \<and> logged w' = logged w))"
proof (cases "build_ssh_command env server (nvidiasmi_remote_cmd cmd_to)")
  case (Inl e)
  then have "w' = w \<and> r = Inl e" using assms by (auto simp: run_nvidiasmi_remote_def Let_def)
  then show ?thesis using build_ssh_command_error[OF Inl] by simp
next
  case (Inr ssh_cmd)
  have "issued w' = issued w @ [\<lparr>cmd = Argv ssh_cmd, timeout = ssh_to\<rparr>]
          \<and> attempts w' = attempts w \<and> slept w' = slept w
          \<and> (case subprocess env (issued w) \<lparr>cmd = Argv ssh_cmd, timeout = ssh_to\<rparr> of
               Output out \<Rightarrow> r = Inr (Some out) \<and> logged w' = logged w
             | TimeoutExpired \<Rightarrow>
                 r = Inr None
                 \<and> logged w' = logged w @ [Error_msg (''Timeout while connecting to '' @ server)]
             | CalledProcessError rc \<Rightarrow>
                 r = Inr None
                 \<and> logged w' = logged w
                      @ [Error_exc (''Error running nvidia-smi on '' @ server @ '': '') (Argv ssh_cmd) rc]
             | SpawnFailed \<Rightarrow> r = Inl OSError \<and> logged w' = logged w)"
    using assms Inr
    by (cases "subprocess env (issued w) \<lparr>cmd = Argv ssh_cmd, timeout = ssh_to\<rparr>")
       (auto simp: run_nvidiasmi_remote_def check_output_def logging_error_def Let_def)
  then show ?thesis using Inr by blast
qed

text \<open>
  Claim C9, as the code has it. The remote command of the telemetry fetch embeds a
  timeout of its own: the last argument of the \<open>ssh\<close> invocation is \<open>timeout\<close>, the command
  timeout and the \<open>nvidia-smi\<close> command, and the invocation waits for the connection
  timeout. The remote command of the owner lookup is the bare \<open>ps\<close> command: it embeds no
  timeout and is bounded only by the local wait for the command timeout.
\<close>

theorem remote_nvidiasmi_embeds_timeout:
  "(run_nvidiasmi_remote env server ssh_to cmd_to w = (r, w') \<and> issued w' = issued w @ [iv] \<longrightarrow>
      (\<exists>pre. cmd iv = Argv (pre @ [''timeout '' @ str_int cmd_to @ '' nvidia-smi -q -x'']))
      \<and> timeout iv = ssh_to)
   \<and> (get_user_info env server pids w = (r2, w2) \<and> issued w2 = issued w @ [iv2]
        \<and> cmd iv2 = Argv ssh_cmd \<longrightarrow>
      (\<exists>pre. ssh_cmd = pre @ [''ps -o user= -p '' @ join '','' (map the pids)])
      \<and> timeout iv2 = cmd_timeout env)"
proof -
  have a: "(\<exists>pre. cmd iv = Argv (pre @ [''timeout '' @ str_int cmd_to @ '' nvidia-smi -q -x'']))
      \<and> timeout iv = ssh_to"
    if h: "run_nvidiasmi_remote env server ssh_to cmd_to w = (r, w')" and i: "issued w' = issued w @ [iv]"
  proof -
    have "w' \<noteq> w" using i by auto
    then obtain ssh_cmd where s: "build_ssh_command env server (nvidiasmi_remote_cmd cmd_to) = Inr ssh_cmd"
      "issued w' = issued w @ [\<lparr>cmd = Argv ssh_cmd, timeout = ssh_to\<rparr>]"
      using run_nvidiasmi_remote_effect[OF h] by blast
    have "iv = \<lparr>cmd = Argv ssh_cmd, timeout = ssh_to\<rparr>" using s(2) i by simp
    then show ?thesis using build_ssh_command_last[OF s(1)] by (auto simp: nvidiasmi_remote_cmd_def)
  qed
  have b: "(\<exists>pre. ssh_cmd = pre @ [''ps -o user= -p '' @ join '','' (map the pids)])
      \<and> timeout iv2 = cmd_timeout env"
    if h: "get_user_info env server pids w = (r2, w2)" and i: "issued w2 = issued w @ [iv2]"
      and c: "cmd iv2 = Argv ssh_cmd"
  proof -
    have "w2 \<noteq> w" using i by auto
    then obtain c' where l: "lookup_command pids c'" "lookup_users env server pids c' w = (r2, w2)"
      using get_user_info_cases[OF h] by blast
    have "iv2 = \<lparr>cmd = c', timeout = cmd_timeout env\<rparr>" using lookup_users_effect[OF l(2)] i by simp
    then have "c' = Argv ssh_cmd" "timeout iv2 = cmd_timeout env" using c by auto
    then show ?thesis using l(1) by (auto simp: lookup_command_def lookup_cmd_def)
  qed
  show ?thesis using a b by blast
qed

text \<open>The remote invocation of the owner lookup: its remote command does not start with \<open>timeout\<close>.\<close>

theorem remote_lookup_without_timeout:
  "issued (snd (get_user_info example_env ''10.0.0.1 -p22'' [Some ''123''] initial_world))
     = [\<lparr>cmd = Argv [''ssh'', ''-p'', ''22'', ''10.0.0.1'', ''ps -o user= -p 123''], timeout = 10\<rparr>]
   \<and> \<not> startswith ''ps -o user= -p 123'' ''timeout''"
  by (simp add: get_user_info_example initial_world_def startswith_def)

lemma run_nvidiasmi_remote_example:
  "run_nvidiasmi_remote example_env ''10.0.0.1 -p22'' 5 10 w
     = (Inr (Some ''good''),
        w\<lparr>issued := issued w @
             [\<lparr>cmd = Argv [''ssh'', ''-p'', ''22'', ''10.0.0.1'', ''timeout 10 nvidia-smi -q -x''],
               timeout = 5\<rparr>]\<rparr>)"
proof -
  have an: "subprocess example_env h \<lparr>cmd = Argv [''ssh'', ''-p'', ''22'', ''10.0.0.1'', ''timeout 10 nvidia-smi -q -x''],
               timeout = 5\<rparr> = Output ''good''" for h
    by (simp add: example_env_def answers_def startswith_def)
  show ?thesis
    by (simp add: run_nvidiasmi_remote_def nvidiasmi_remote_cmd_def str_int_examples ssh_example
        check_output_def an Let_def)
qed

theorem remote_nvidiasmi_embeds_timeout_witness:
  "issued (snd (run_nvidiasmi_remote example_env ''10.0.0.1 -p22'' 5 10 initial_world))
     = issued initial_world
       @ [\<lparr>cmd = Argv [''ssh'', ''-p'', ''22'', ''10.0.0.1'', ''timeout 10 nvidia-smi -q -x''], timeout = 5\<rparr>]
   \<and> (\<exists>pre. cmd \<lparr>cmd = Argv [''ssh'', ''-p'', ''22'', ''10.0.0.1'', ''timeout 10 nvidia-smi -q -x''], timeout = 5\<rparr>
              = Argv (pre @ [''timeout '' @ str_int 10 @ '' nvidia-smi -q -x'']))
   \<and> issued (snd (get_user_info example_env ''10.0.0.1 -p22'' [Some ''123''] initial_world))
     = issued initial_world
       @ [\<lparr>cmd = Argv [''ssh'', ''-p'', ''22'', ''10.0.0.1'', ''ps -o user= -p 123''], timeout = 10\<rparr>]
   \<and> (\<exists>pre. [''ssh'', ''-p'', ''22'', ''10.0.0.1'', ''ps -o user= -p 123'']
              = pre @ [''ps -o user= -p '' @ join '','' (map the [Some ''123''])])"
proof -
  let ?n = "run_nvidiasmi_remote example_env ''10.0.0.1 -p22'' 5 10 initial_world"
  let ?g = "get_user_info example_env ''10.0.0.1 -p22'' [Some ''123''] initial_world"
  let ?iv = "\<lparr>cmd = Argv [''ssh'', ''-p'', ''22'', ''10.0.0.1'', ''timeout 10 nvidia-smi -q -x''], timeout = 5\<rparr>"
  let ?iv2 = "\<lparr>cmd = Argv [''ssh'', ''-p'', ''22'', ''10.0.0.1'', ''ps -o user= -p 123''], timeout = 10\<rparr>"
  have i1: "issued (snd ?n) = issued initial_world @ [?iv]"
    by (simp add: run_nvidiasmi_remote_example)
  have i2: "issued (snd ?g) = issued initial_world @ [?iv2]"
    by (simp add: get_user_info_example)
  note t = remote_nvidiasmi_embeds_timeout[where env = example_env and server = "''10.0.0.1 -p22''"
      and ssh_to = 5 and cmd_to = 10 and w = initial_world and r = "fst ?n" and w' = "snd ?n"
      and iv = ?iv and pids = "[Some ''123'']" and ?r2.0 = "fst ?g" and ?w2.0 = "snd ?g"
      and ?iv2.0 = ?iv2 and ssh_cmd = "[''ssh'', ''-p'', ''22'', ''10.0.0.1'', ''ps -o user= -p 123'']"]
  have a: "\<exists>pre. cmd ?iv = Argv (pre @ [''timeout '' @ str_int 10 @ '' nvidia-smi -q -x''])"
    using t i1 by simp
  have b: "\<exists>pre. [''ssh'', ''-p'', ''22'', ''10.0.0.1'', ''ps -o user= -p 123'']
              = pre @ [''ps -o user= -p '' @ join '','' (map the [Some ''123''])]"
    using t i2 by simp
  show ?thesis using i1 i2 a b by blast
qed

section \<open>A fetch that fails\<close>

lemma nvidiasmi_output_effect:
  assumes "nvidiasmi_output env server w = (r, w')"
  shows "(w' = w \<and> r = Inl IndexError)
     \<or> (\<exists>iv. issued w' = issued w @ [iv] \<and> attempts w' = attempts w \<and> slept w' = slept w
          \<and> (case subprocess env (issued w) iv of
               Output out \<Rightarrow> r = Inr (Some out) \<and> logged w' = logged w
             | TimeoutExpired \<Rightarrow> r = Inr None \<and> (\<exists>msg. logged w' = logged w @ [Error_msg msg])
             | CalledProcessError rc \<Rightarrow>
                 r = Inr None \<and> (\<exists>msg. logged w' = logged w @ [Error_exc msg (cmd iv) rc])
             | SpawnFailed \<Rightarrow> r = Inl OSError \<and> logged w' = logged w))"
proof (cases "py_split server")
  case Nil
  then show ?thesis using assms by (simp add: nvidiasmi_output_def)
next
  case (Cons host rest)
  show ?thesis
  proof (cases "host \<in> set local_hosts")
    case True
    let ?iv = "\<lparr>cmd = Argv [''nvidia-smi'', ''-q'', ''-x''], timeout = cmd_timeout env\<rparr>"
    have l: "run_nvidiasmi_local env w = (r, w')" using assms Cons True by (simp add: nvidiasmi_output_def)
    note eff = run_nvidiasmi_local_effect[OF l]
    have "issued w' = issued w @ [?iv] \<and> attempts w' = attempts w \<and> slept w' = slept w
          \<and> (case subprocess env (issued w) ?iv of
               Output out \<Rightarrow> r = Inr (Some out) \<and> logged w' = logged w
             | TimeoutExpired \<Rightarrow> r = Inr None \<and> (\<exists>msg. logged w' = logged w @ [Error_msg msg])
             | CalledProcessError rc \<Rightarrow>
                 r = Inr None \<and> (\<exists>msg. logged w' = logged w @ [Error_exc msg (cmd ?iv) rc])
             | SpawnFailed \<Rightarrow> r = Inl OSError \<and> logged w' = logged w)"
      using eff by (cases "subprocess env (issued w) ?iv") auto
    then show ?thesis by blast
  next
    case False
    have l: "run_nvidiasmi_remote env server (ssh_timeout env) (cmd_timeout env) w = (r, w')"
      using assms Cons False by (simp add: nvidiasmi_output_def)
    from run_nvidiasmi_remote_effect[OF l] show ?thesis
    proof
      assume "w' = w \<and> r = Inl IndexError"
      then show ?thesis by simp
    next
      assume "\<exists>ssh_cmd. build_ssh_command env server (nvidiasmi_remote_cmd (cmd_timeout env)) = Inr ssh_cmd
          \<and> issued w' = issued w @ [\<lparr>cmd = Argv ssh_cmd, timeout = ssh_timeout env\<rparr>]
          \<and> attempts w' = attempts w \<and> slept w' = slept w
          \<and> (case subprocess env (issued w) \<lparr>cmd = Argv ssh_cmd, timeout = ssh_timeout env\<rparr> of
               Output out \<Rightarrow> r = Inr (Some out) \<and> logged w' = logged w
             | TimeoutExpired \<Rightarrow>
                 r = Inr None
                 \<and> logged w' = logged w @ [Error_msg (''Timeout while connecting to '' @ server)]
             | CalledProcessError rc \<Rightarrow>
                 r = Inr None
                 \<and> logged w' = logged w
                      @ [Error_exc (''Error running nvidia-smi on '' @ server @ '': '') (Argv ssh_cmd) rc]
             | SpawnFailed \<Rightarrow> r = Inl OSError \<and> logged w' = logged w)"
      then obtain ssh_cmd where e: "issued w' = issued w @ [\<lparr>cmd = Argv ssh_cmd, timeout = ssh_timeout env\<rparr>]"
          "attempts w' = attempts w" "slept w' = slept w"
          "case subprocess env (issued w) \<lparr>cmd = Argv ssh_cmd, timeout = ssh_timeout env\<rparr> of
               Output out \<Rightarrow> r = Inr (Some out) \<and> logged w' = logged w
             | TimeoutExpired \<Rightarrow>
                 r = Inr None
                 \<and> logged w' = logged w @ [Error_msg (''Timeout while connecting to '' @ server)]
             | CalledProcessError rc \<Rightarrow>
                 r = Inr None
                 \<and> logged w' = logged w
                      @ [Error_exc (''Error running nvidia-smi on '' @ server @ '': '') (Argv ssh_cmd) rc]
             | SpawnFailed \<Rightarrow> r = Inl OSError \<and> logged w' = logged w"
        by blast
      let ?iv = "\<lparr>cmd = Argv ssh_cmd, timeout = ssh_timeout env\<rparr>"
      have "case subprocess env (issued w) ?iv of
               Output out \<Rightarrow> r = Inr (Some out) \<and> logged w' = logged w
             | TimeoutExpired \<Rightarrow> r = Inr None \<and> (\<exists>msg. logged w' = logged w @ [Error_msg msg])
             | CalledProcessError rc \<Rightarrow>
                 r = Inr None \<and> (\<exists>msg. logged w' = logged w @ [Error_exc msg (cmd ?iv) rc])
             | SpawnFailed \<Rightarrow> r = Inl OSError \<and> logged w' = logged w"
        using e(4) by (cases "subprocess env (issued w) ?iv") auto
      then show ?thesis using e(1,2,3) by blast
    qed
  qed
qed

lemma display_no_devices:
  "\<exists>row w'. display_gpu_infos env server [] col row_offset w = (Inr row, w')"
proof -
  obtain r w' where d: "display_gpu_infos env server [] col row_offset w = (r, w')"
    by (cases "display_gpu_infos env server [] col row_offset w")
  then show ?thesis
  proof (cases rule: display_cases)
    case rejected
    then show ?thesis using d by simp
  next
    case (raised e row2)
    then show ?thesis by simp
  next
    case (returned row w2)
    then show ?thesis using d by simp
  qed
qed

lemma poll_server_unfold:
  "poll_server env col_width i server offsets w =
     (case nvidiasmi_output env server w of
        (Inl e, w1) \<Rightarrow> (Inl e, w1)
      | (Inr out, w1) \<Rightarrow>
          (case get_gpu_infos (fromstring env) out of
             Inl e \<Rightarrow> (Inl e, w1)
           | Inr gpu_infos \<Rightarrow>
               (case display_gpu_infos env server gpu_infos (column col_width i) (offset_of i offsets) w1 of
                  (Inl e, w2) \<Rightarrow> (Inl e, w2)
                | (Inr row, w2) \<Rightarrow> (Inr (with_offset i offsets row), w2))))"
  unfolding poll_server_def column_def offset_of_def with_offset_def Let_def ..

text \<open>
  Claim C7, as the code has it. When the process of a telemetry fetch, local or remote,
  times out or exits with a non-zero status, the fetch returns \<open>None\<close> (never partial
  output); the value returned is the same in both cases and carries neither the kind of
  the failure nor the exit status. One entry is added to the log, which after a non-zero
  exit carries the command and its status. Nothing is raised: the host is rendered as a
  block without devices, and the loop over the servers goes on with the next one.
\<close>

theorem fetch_failure_is_absent:
  assumes "nvidiasmi_output env server w = (r, w')" and "issued w' = issued w @ [iv]"
    and "subprocess env (issued w) iv = TimeoutExpired
         \<or> (\<exists>rc. subprocess env (issued w) iv = CalledProcessError rc)"
  shows "r = Inr None
     \<and> (\<exists>entry. logged w' = logged w @ [entry]
          \<and> (subprocess env (issued w) iv = TimeoutExpired \<longrightarrow> (\<exists>msg. entry = Error_msg msg))
          \<and> (\<forall>rc. subprocess env (issued w) iv = CalledProcessError rc \<longrightarrow>
                 (\<exists>msg. entry = Error_exc msg (cmd iv) rc)))
     \<and> (\<exists>row w''. display_gpu_infos env server [] (column col_width i) (offset_of i offsets) w'
                     = (Inr row, w'')
          \<and> poll_server env col_width i server offsets w = (Inr (with_offset i offsets row), w'')
          \<and> servers_loop env col_width i (server # rest) offsets w
              = servers_loop env col_width (Suc i) rest (with_offset i offsets row) w'')"
proof -
  have "w' \<noteq> w" using assms(2) by auto
  then obtain iv' where e: "issued w' = issued w @ [iv']"
      "case subprocess env (issued w) iv' of
               Output out \<Rightarrow> r = Inr (Some out) \<and> logged w' = logged w
             | TimeoutExpired \<Rightarrow> r = Inr None \<and> (\<exists>msg. logged w' = logged w @ [Error_msg msg])
             | CalledProcessError rc \<Rightarrow>
                 r = Inr None \<and> (\<exists>msg. logged w' = logged w @ [Error_exc msg (cmd iv') rc])
             | SpawnFailed \<Rightarrow> r = Inl OSError \<and> logged w' = logged w"
    using nvidiasmi_output_effect[OF assms(1)] by blast
  have iv: "iv' = iv" using e(1) assms(2) by simp
  have r: "r = Inr None" using e(2) assms(3) unfolding iv by auto
  have lg: "\<exists>entry. logged w' = logged w @ [entry]
          \<and> (subprocess env (issued w) iv = TimeoutExpired \<longrightarrow> (\<exists>msg. entry = Error_msg msg))
          \<and> (\<forall>rc. subprocess env (issued w) iv = CalledProcessError rc \<longrightarrow>
                 (\<exists>msg. entry = Error_exc msg (cmd iv) rc))"
    using e(2) assms(3) unfolding iv by auto
  obtain row w'' where d: "display_gpu_infos env server [] (column col_width i) (offset_of i offsets) w'
                     = (Inr row, w'')"
    using display_no_devices by blast
  have p: "poll_server env col_width i server offsets w = (Inr (with_offset i offsets row), w'')"
    unfolding poll_server_unfold using assms(1) r d by (simp add: get_gpu_infos_def)
  have s: "servers_loop env col_width i (server # rest) offsets w
              = servers_loop env col_width (Suc i) rest (with_offset i offsets row) w''"
    using p by simp
  show ?thesis using r lg d p s by blast
qed

text \<open>
  A timeout, an exit with status 1 and an exit with status 2 give the caller the same
  result, locally and remotely.
\<close>

theorem fetch_failures_indistinguishable:
  "fst (nvidiasmi_output (example_env\<lparr>subprocess := \<lambda>h i. TimeoutExpired\<rparr>) ''localhost'' initial_world)
     = Inr None
   \<and> fst (nvidiasmi_output (example_env\<lparr>subprocess := \<lambda>h i. CalledProcessError 1\<rparr>) ''localhost''
            initial_world) = Inr None
   \<and> fst (nvidiasmi_output (example_env\<lparr>subprocess := \<lambda>h i. CalledProcessError 2\<rparr>) ''localhost''
            initial_world) = Inr None
   \<and> fst (run_nvidiasmi_remote (example_env\<lparr>subprocess := \<lambda>h i. TimeoutExpired\<rparr>) ''10.0.0.1 -p22'' 5 10
            initial_world) = Inr None
   \<and> fst (run_nvidiasmi_remote (example_env\<lparr>subprocess := \<lambda>h i. CalledProcessError 1\<rparr>) ''10.0.0.1 -p22''
            5 10 initial_world) = Inr None
   \<and> fst (run_nvidiasmi_remote (example_env\<lparr>subprocess := \<lambda>h i. CalledProcessError 2\<rparr>) ''10.0.0.1 -p22''
            5 10 initial_world) = Inr None"
proof -
  have b: "build_ssh_command (example_env\<lparr>subprocess := f\<rparr>) ''10.0.0.1 -p22'' remote_cmd
     = Inr [''ssh'', ''-p'', ''22'', ''10.0.0.1'', remote_cmd]" for f remote_cmd
    by (simp add: build_ssh_command_def parse_server_def split_example bind_def startswith_def
      truthy_def example_env_def)
  show ?thesis
    by (simp add: nvidiasmi_output_def split_localhost local_hosts_def run_nvidiasmi_local_def
        run_nvidiasmi_remote_def b check_output_def logging_error_def Let_def)
qed

theorem fetch_failure_is_absent_witness:
  "issued (snd (nvidiasmi_output (example_env\<lparr>subprocess := \<lambda>h i. CalledProcessError 2\<rparr>) ''localhost''
                  initial_world))
     = issued initial_world @ [\<lparr>cmd = Argv [''nvidia-smi'', ''-q'', ''-x''], timeout = 10\<rparr>]
   \<and> fst (nvidiasmi_output (example_env\<lparr>subprocess := \<lambda>h i. CalledProcessError 2\<rparr>) ''localhost''
            initial_world) = Inr None
   \<and> (\<exists>entry msg. logged (snd (nvidiasmi_output (example_env\<lparr>subprocess := \<lambda>h i. CalledProcessError 2\<rparr>)
                                  ''localhost'' initial_world))
                     = logged initial_world @ [entry]
          \<and> entry = Error_exc msg (Argv [''nvidia-smi'', ''-q'', ''-x'']) 2)
   \<and> (\<exists>row w''. poll_server (example_env\<lparr>subprocess := \<lambda>h i. CalledProcessError 2\<rparr>) 40 0 ''localhost''
                    (0, 0) initial_world = (Inr (with_offset 0 (0, 0) row), w''))"
proof -
  let ?env = "example_env\<lparr>subprocess := \<lambda>h i. CalledProcessError 2\<rparr>"
  let ?iv = "\<lparr>cmd = Argv [''nvidia-smi'', ''-q'', ''-x''], timeout = 10\<rparr>"
  let ?n = "nvidiasmi_output ?env ''localhost'' initial_world"
  have i: "issued (snd ?n) = issued initial_world @ [?iv]"
    by (simp add: nvidiasmi_output_def split_localhost local_hosts_def run_nvidiasmi_local_def
        check_output_def logging_error_def example_env_def Let_def)
  have f: "subprocess ?env (issued initial_world) ?iv = TimeoutExpired
         \<or> (\<exists>rc. subprocess ?env (issued initial_world) ?iv = CalledProcessError rc)" by simp
  note t = fetch_failure_is_absent[OF prod.collapse[symmetric] i f, of 40 0 "(0, 0)" "[]"]
  have a: "fst ?n = Inr None" using t by simp
  from t obtain entry where "logged (snd ?n) = logged initial_world @ [entry]"
    "\<forall>rc. subprocess ?env (issued initial_world) ?iv = CalledProcessError rc \<longrightarrow>
                 (\<exists>msg. entry = Error_exc msg (cmd ?iv) rc)" by blast
  then have b: "\<exists>entry msg. logged (snd ?n) = logged initial_world @ [entry]
          \<and> entry = Error_exc msg (Argv [''nvidia-smi'', ''-q'', ''-x'']) 2" by simp
  have c: "\<exists>row w''. poll_server ?env 40 0 ''localhost'' (0, 0) initial_world
             = (Inr (with_offset 0 (0, 0) row), w'')" using t by blast
  show ?thesis using i a b c by blast
qed

section \<open>A telemetry that does not parse\<close>

lemma servers_loop_append:
  "servers_loop env cw i (xs @ ys) offsets w =
     (case servers_loop env cw i xs offsets w of
        (Inl e, w') \<Rightarrow> (Inl e, w')
      | (Inr offsets', w') \<Rightarrow> servers_loop env cw (i + length xs) ys offsets' w')"
proof (induction xs arbitrary: i offsets w)
  case Nil
  then show ?case by simp
next
  case (Cons x xs)
  obtain r w1 where p: "poll_server env cw i x offsets w = (r, w1)"
    by (cases "poll_server env cw i x offsets w")
  show ?case
  proof (cases r)
    case (Inl e)
    then show ?thesis using p by simp
  next
    case (Inr offsets1)
    then show ?thesis using p Cons.IH[of "Suc i" offsets1 w1]
      by (simp split: prod.splits sum.splits)
  qed
qed

lemma each_raises:
  assumes "each f pre = Inr ys" and "f x = Inl e"
  shows "each f (pre @ x # post) = Inl e"
  using assms(1)
proof (induction pre arbitrary: ys)
  case Nil
  then show ?case using assms(2) by (simp add: bind_def)
next
  case (Cons a pre)
  then show ?case by (auto simp add: bind_def split: sum.splits)
qed

lemma int_field_not_integer:
  assumes "not_integer x"
  shows "int_field x = Inl ValueError"
  using assms unfolding not_integer_def
  by (auto simp add: int_field_def text_of_def leading_int_def bind_def)

lemma parse_process_not_integer:
  assumes "text_of (find_tag p ''pid'') = Inr pd" and "not_integer (find_tag p ''used_memory'')"
  shows "parse_process p = Inl ValueError"
  using assms(1) int_field_not_integer[OF assms(2)] by (simp add: parse_process_def bind_def)

lemma parse_gpu_not_integer:
  assumes "encounters g x" and "not_integer x"
  shows "parse_gpu g = Inl ValueError"
proof -
  note v = int_field_not_integer[OF assms(2)]
  from assms(1) obtain ix nm where h: "text_of (find_tag g ''minor_number'') = Inr ix"
      "text_of (find_tag g ''product_name'') = Inr nm"
    unfolding encounters_def by blast
  from assms(1) consider
      (total) "x = find2 g ''fb_memory_usage'' ''total''"
    | (used) mt where "int_field (find2 g ''fb_memory_usage'' ''total'') = Inr mt"
        "x = find2 g ''fb_memory_usage'' ''used''"
    | (free) mt mu where "int_field (find2 g ''fb_memory_usage'' ''total'') = Inr mt"
        "int_field (find2 g ''fb_memory_usage'' ''used'') = Inr mu"
        "x = find2 g ''fb_memory_usage'' ''free''"
    | (process) mt mu mf ps p qs procs pd where
        "int_field (find2 g ''fb_memory_usage'' ''total'') = Inr mt"
        "int_field (find2 g ''fb_memory_usage'' ''used'') = Inr mu"
        "int_field (find2 g ''fb_memory_usage'' ''free'') = Inr mf"
        "findall2 g ''processes'' ''process_info'' = ps @ p # qs"
        "each parse_process ps = Inr procs"
        "text_of (find_tag p ''pid'') = Inr pd"
        "x = find_tag p ''used_memory''"
    unfolding encounters_def by blast
  then show ?thesis
  proof cases
    case total
    then show ?thesis using h v by (simp add: parse_gpu_def bind_def)
  next
    case used
    then show ?thesis using h v by (simp add: parse_gpu_def bind_def)
  next
    case free
    then show ?thesis using h v by (simp add: parse_gpu_def bind_def)
  next
    case process
    have "parse_process p = Inl ValueError"
      using parse_process_not_integer[OF process(6)] assms(2) process(7) by simp
    then have "each parse_process (findall2 g ''processes'' ''process_info'') = Inl ValueError"
      unfolding process(4) by (rule each_raises[OF process(5)])
    then show ?thesis using h process(1-3) by (simp add: parse_gpu_def bind_def)
  qed
qed

lemma get_gpu_infos_not_integer:
  assumes "fromstring env raw = Some root" and "findall root ''gpu'' = pre @ g # post"
    and "each parse_gpu pre = Inr infos" and "encounters g x" and "not_integer x"
  shows "get_gpu_infos (fromstring env) (Some raw) = Inl ValueError"
  using assms(1,2) each_raises[OF assms(3) parse_gpu_not_integer[OF assms(4,5)], of post]
  by (simp add: get_gpu_infos_def)

lemma nvidiasmi_output_attempts:
  assumes "nvidiasmi_output env server w = (r, w')"
  shows "attempts w' = attempts w"
  using nvidiasmi_output_effect[OF assms] by auto

lemma cycle_raises:
  assumes "surface env (attempts w) Clear"
    and "servers_loop env (snd (getmaxyx env) div 2) 0 servers (0, 0) (snd (curses_call env Clear w))
         = (Inl e, w1)"
  shows "cycle env servers w = (Some e, w1)"
  using assms unfolding cycle_def Let_def by (simp add: case_prod_beta curses_call_effect)

lemma poll_loop_add:
  assumes "poll_loop env servers k w0 = (None, w)"
  shows "poll_loop env servers (k + m) w0 = poll_loop env servers m w"
  using assms
proof (induction k arbitrary: w0)
  case 0
  then show ?case by simp
next
  case (Suc k)
  obtain r w1 where c: "cycle env servers w0 = (r, w1)" by (cases "cycle env servers w0")
  show ?case
  proof (cases r)
    case None
    then show ?thesis using Suc.prems c Suc.IH[of w1] by simp
  next
    case (Some e)
    then show ?thesis using Suc.prems c by simp
  qed
qed

text \<open>
  Whatever \<open>get_gpu_infos\<close> raises leaves the loop over the servers, the pass, the poll
  loop and \<open>main\<close>.
\<close>

lemma parse_failure_propagates:
  assumes "map strip (filter (\<lambda>line. strip line \<noteq> []) file_lines) = before @ server # after"
    and "poll_loop env (before @ server # after) k w0 = (None, w)"
    and "surface env (attempts w) Clear"
    and "servers_loop env (snd (getmaxyx env) div 2) 0 before (0, 0) (snd (curses_call env Clear w))
         = (Inr offsets, w1)"
    and "nvidiasmi_output env server w1 = (Inr out, w2)"
    and "get_gpu_infos (fromstring env) out = Inl e"
  shows "poll_server env (snd (getmaxyx env) div 2) (length before) server offsets w1 = (Inl e, w2)
     \<and> cycle env (before @ server # after) w = (Some e, w2)
     \<and> poll_loop env (before @ server # after) (k + Suc n) w0 = (Some e, w2)
     \<and> main env (Some file_lines) (k + Suc n) w0 = (Raised e, w2)
     \<and> attempts w2 = attempts w1"
proof -
  let ?cw = "snd (getmaxyx env) div 2"
  have p: "poll_server env ?cw (length before) server offsets w1 = (Inl e, w2)"
    unfolding poll_server_unfold using assms(5,6) by simp
  have s: "servers_loop env ?cw 0 (before @ server # after) (0, 0) (snd (curses_call env Clear w))
           = (Inl e, w2)"
    unfolding servers_loop_append using assms(4) p by simp
  have c: "cycle env (before @ server # after) w = (Some e, w2)"
    by (rule cycle_raises[OF assms(3) s])
  have l: "poll_loop env (before @ server # after) (k + Suc n) w0 = (Some e, w2)"
    unfolding poll_loop_add[OF assms(2)] using c by simp
  have m: "main env (Some file_lines) (k + Suc n) w0 = (Raised e, w2)"
    unfolding main_def Let_def using assms(1) l by simp
  show ?thesis using p c l m nvidiasmi_output_attempts[OF assms(5)] by simp
qed

text \<open>
  Claim C1, as the code has it. A failure can end the process. When parsing gets to a
  memory field whose text has a first token that is not an integer (the total, used or
  free memory of any device of a host, or the used memory of any of its processes),
  \<open>get_gpu_infos\<close> raises \<open>ValueError\<close>, and nothing catches it: it leaves the body of the
  loop over the servers, the pass of the poll loop, the poll loop and \<open>main\<close>, in
  whatever pass it happens (after \<open>k\<close> passes that ended without an exception, in a pass
  whose window was cleared). Nothing is written for that host, not even its header, and
  the servers after it are not polled.
\<close>

theorem parse_failure_ends_main:
  assumes "map strip (filter (\<lambda>line. strip line \<noteq> []) file_lines) = before @ server # after"
    and "poll_loop env (before @ server # after) k w0 = (None, w)"
    and "surface env (attempts w) Clear"
    and "servers_loop env (snd (getmaxyx env) div 2) 0 before (0, 0) (snd (curses_call env Clear w))
         = (Inr offsets, w1)"
    and "nvidiasmi_output env server w1 = (Inr (Some raw), w2)"
    and "fromstring env raw = Some root" and "findall root ''gpu'' = pre @ g # post"
    and "each parse_gpu pre = Inr infos"
    and "encounters g x" and "not_integer x"
  shows "get_gpu_infos (fromstring env) (Some raw) = Inl ValueError
     \<and> poll_server env (snd (getmaxyx env) div 2) (length before) server offsets w1
         = (Inl ValueError, w2)
     \<and> cycle env (before @ server # after) w = (Some ValueError, w2)
     \<and> poll_loop env (before @ server # after) (k + Suc n) w0 = (Some ValueError, w2)
     \<and> main env (Some file_lines) (k + Suc n) w0 = (Raised ValueError, w2)
     \<and> attempts w2 = attempts w1"
proof -
  have g: "get_gpu_infos (fromstring env) (Some raw) = Inl ValueError"
    by (rule get_gpu_infos_not_integer[OF assms(6-10)])
  show ?thesis using g parse_failure_propagates[OF assms(1-5) g, of n] by simp
qed

lemma bad_env_fields:
  "getmaxyx bad_env = (24, 80)" "fromstring bad_env = parses" "surface bad_env = window_accepts 24 80"
  "ssh_timeout bad_env = 5" "cmd_timeout bad_env = 10"
  by (simp_all add: bad_env_def example_env_def)

lemma late_bad_env_fields:
  "getmaxyx late_bad_env = (24, 80)" "fromstring late_bad_env = (\<lambda>raw. Some late_bad_log)"
  "surface late_bad_env = window_accepts 24 80"
  "ssh_timeout late_bad_env = 5" "cmd_timeout late_bad_env = 10"
  by (simp_all add: late_bad_env_def bad_env_def example_env_def)

lemma strip_examples:
  "strip ''10.0.0.1 -p22'' = ''10.0.0.1 -p22''" "strip ''localhost'' = ''localhost''"
  by (simp_all add: strip_def is_space_def)

lemma bad_fetch:
  "nvidiasmi_output (bad_env\<lparr>fromstring := xml\<rparr>) ''10.0.0.1 -p22'' w
     = (Inr (Some ''bad''),
        w\<lparr>issued := issued w @
             [\<lparr>cmd = Argv [''ssh'', ''-p'', ''22'', ''10.0.0.1'', ''timeout 10 nvidia-smi -q -x''],
               timeout = 5\<rparr>]\<rparr>)"
proof -
  let ?env = "bad_env\<lparr>fromstring := xml\<rparr>"
  have b: "build_ssh_command ?env ''10.0.0.1 -p22'' remote_cmd
     = Inr [''ssh'', ''-p'', ''22'', ''10.0.0.1'', remote_cmd]" for remote_cmd
    by (simp add: build_ssh_command_def parse_server_def split_example bind_def startswith_def
      truthy_def bad_env_def example_env_def)
  have an: "subprocess bad_env h \<lparr>cmd = Argv [''ssh'', ''-p'', ''22'', ''10.0.0.1'', ''timeout 10 nvidia-smi -q -x''],
               timeout = 5\<rparr> = Output ''bad''" for h
    by (simp add: bad_env_def example_env_def answers_def startswith_def)
  have f: "ssh_timeout ?env = 5" "cmd_timeout ?env = 10" by (simp_all add: bad_env_fields)
  show ?thesis
    by (simp add: nvidiasmi_output_def split_example local_hosts_def run_nvidiasmi_remote_def
        nvidiasmi_remote_cmd_def str_int_examples b f check_output_def an Let_def)
qed

lemma bad_env_update: "bad_env\<lparr>fromstring := parses\<rparr> = bad_env"
  by (simp add: bad_env_def example_env_def)

lemma bad_log_fields:
  "findall bad_log ''gpu'' = [] @ device_node ''0'' ''N/A'' ''123'' ''500 MiB'' # []"
  "find2 (device_node ''0'' ''N/A'' ''123'' ''500 MiB'') ''fb_memory_usage'' ''total''
     = Some (Element ''total'' (Some ''N/A'') [])"
  "encounters (device_node ''0'' ''N/A'' ''123'' ''500 MiB'')
     (find2 (device_node ''0'' ''N/A'' ''123'' ''500 MiB'') ''fb_memory_usage'' ''total'')"
  "not_integer (Some (Element ''total'' (Some ''N/A'') []))"
  by (simp_all add: bad_log_def device_node_def findall_def find_tag_def find2_def findall2_def
      first_def py_split_def is_space_def py_int_def is_digit_def encounters_def not_integer_def
      text_of_def)

lemma bad_main:
  "main bad_env (Some [''10.0.0.1 -p22'', ''localhost'']) (Suc 0) initial_world
     = (Raised ValueError,
        \<lparr>issued = [\<lparr>cmd = Argv [''ssh'', ''-p'', ''22'', ''10.0.0.1'', ''timeout 10 nvidia-smi -q -x''],
                     timeout = 5\<rparr>],
         logged = [], attempts = [(Clear, True)], slept = []\<rparr>)"
proof -
  let ?w1 = "snd (curses_call bad_env Clear initial_world)"
  let ?iv = "\<lparr>cmd = Argv [''ssh'', ''-p'', ''22'', ''10.0.0.1'', ''timeout 10 nvidia-smi -q -x''], timeout = 5\<rparr>"
  let ?servers = "[] @ ''10.0.0.1 -p22'' # [''localhost'']"
  have f: "map strip (filter (\<lambda>line. strip line \<noteq> []) [''10.0.0.1 -p22'', ''localhost''])
           = ?servers"
    by (simp add: strip_examples)
  have k: "poll_loop bad_env ?servers 0 initial_world = (None, initial_world)" by simp
  have l: "servers_loop bad_env (snd (getmaxyx bad_env) div 2) 0 [] (0, 0) ?w1 = (Inr (0, 0), ?w1)"
    by simp
  have c: "surface bad_env (attempts initial_world) Clear"
    by (simp add: bad_env_fields window_accepts_def)
  have p: "fromstring bad_env ''bad'' = Some bad_log" by (simp add: bad_env_fields parses_def)
  have e: "each parse_gpu [] = Inr []" by simp
  have g: "get_gpu_infos (fromstring bad_env) (Some ''bad'') = Inl ValueError"
    using get_gpu_infos_not_integer[OF p bad_log_fields(1) e bad_log_fields(3)]
      bad_log_fields(2,4) by simp
  note t = parse_failure_propagates[OF f k c l bad_fetch[of parses, unfolded bad_env_update] g, of 0]
  have w: "?w1\<lparr>issued := issued ?w1 @ [?iv]\<rparr>
           = \<lparr>issued = [?iv], logged = [], attempts = [(Clear, True)], slept = []\<rparr>"
    by (simp add: curses_call_effect bad_env_fields window_accepts_def initial_world_def)
  show ?thesis using t unfolding w by simp
qed

text \<open>
  Two servers, the first of which reports N/A as total memory: \<open>main\<close> ends with
  \<open>ValueError\<close> in its first pass, after clearing the window and fetching from the first
  server; no header is written and the second server is not polled.
\<close>

theorem parse_failure_is_fatal:
  "main bad_env (Some [''10.0.0.1 -p22'', ''localhost'']) (Suc 0) initial_world
     = (Raised ValueError,
        \<lparr>issued = [\<lparr>cmd = Argv [''ssh'', ''-p'', ''22'', ''10.0.0.1'', ''timeout 10 nvidia-smi -q -x''],
                     timeout = 5\<rparr>],
         logged = [], attempts = [(Clear, True)], slept = []\<rparr>)"
  by (rule bad_main)

lemma late_bad_log_fields:
  "findall late_bad_log ''gpu''
     = [device_node ''0'' ''8000 MiB'' ''123'' ''500 MiB''] @ device_node ''1'' ''8000 MiB'' ''456'' ''N/A'' # []"
  "findall2 (device_node ''1'' ''8000 MiB'' ''456'' ''N/A'') ''processes'' ''process_info''
     = [] @ Element ''process_info'' None
              [Element ''pid'' (Some ''456'') [], Element ''used_memory'' (Some ''N/A'') []] # []"
  "find_tag (Element ''process_info'' None
              [Element ''pid'' (Some ''456'') [], Element ''used_memory'' (Some ''N/A'') []])
     ''used_memory'' = Some (Element ''used_memory'' (Some ''N/A'') [])"
  "not_integer (Some (Element ''used_memory'' (Some ''N/A'') []))"
  by (simp_all add: late_bad_log_def device_node_def findall_def find_tag_def find2_def
      findall2_def first_def py_split_def is_space_def py_int_def is_digit_def not_integer_def)

lemma first_device_parses:
  "each parse_gpu [device_node ''0'' ''8000 MiB'' ''123'' ''500 MiB''] = Inr [device0]"
  using parse_gpu_describes[OF describes_example[of "''0''" 8000 "''123''" 500]]
  by (simp add: str_int_examples bind_def device0_def)

lemma late_encounter:
  "encounters (device_node ''1'' ''8000 MiB'' ''456'' ''N/A'') (Some (Element ''used_memory'' (Some ''N/A'') []))"
proof -
  let ?g = "device_node ''1'' ''8000 MiB'' ''456'' ''N/A''"
  let ?p = "Element ''process_info'' None
              [Element ''pid'' (Some ''456'') [], Element ''used_memory'' (Some ''N/A'') []]"
  have fields: "find_tag ?g ''minor_number'' = Some (Element ''minor_number'' (Some ''1'') [])"
    "find_tag ?g ''product_name'' = Some (Element ''product_name'' (Some ''Tesla T4'') [])"
    "find2 ?g ''fb_memory_usage'' ''total'' = Some (Element ''total'' (Some (str_int 8000 @ '' MiB'')) [])"
    "find2 ?g ''fb_memory_usage'' ''used'' = Some (Element ''used'' (Some (str_int 2000 @ '' MiB'')) [])"
    "find2 ?g ''fb_memory_usage'' ''free'' = Some (Element ''free'' (Some (str_int 6000 @ '' MiB'')) [])"
    by (simp_all add: device_node_def findall_def find_tag_def find2_def findall2_def first_def
        str_int_examples)
  have ints: "int_field (find2 ?g ''fb_memory_usage'' ''total'') = Inr 8000"
    "int_field (find2 ?g ''fb_memory_usage'' ''used'') = Inr 2000"
    "int_field (find2 ?g ''fb_memory_usage'' ''free'') = Inr 6000"
    unfolding fields by (rule int_field_reads[OF reads_example])+
  have texts: "text_of (find_tag ?g ''minor_number'') = Inr (Some ''1'')"
    "text_of (find_tag ?g ''product_name'') = Inr (Some ''Tesla T4'')"
    "text_of (find_tag ?p ''pid'') = Inr (Some ''456'')"
    unfolding fields by (simp_all add: text_of_def find_tag_def findall_def first_def)
  have procs: "\<exists>ps p qs procs pd.
      findall2 ?g ''processes'' ''process_info'' = ps @ p # qs
      \<and> each parse_process ps = Inr procs
      \<and> text_of (find_tag p ''pid'') = Inr pd
      \<and> Some (Element ''used_memory'' (Some ''N/A'') []) = find_tag p ''used_memory''"
    by (intro exI[of _ "[]"] exI[of _ ?p] exI[of _ "Some ''456''"])
       (simp add: late_bad_log_fields(2,3) texts(3))
  show ?thesis unfolding encounters_def using texts(1,2) ints procs by blast
qed

theorem parse_failure_ends_main_witness:
  "map strip (filter (\<lambda>line. strip line \<noteq> []) [''10.0.0.1 -p22'', ''localhost''])
     = [] @ ''10.0.0.1 -p22'' # [''localhost'']
   \<and> poll_loop late_bad_env ([] @ ''10.0.0.1 -p22'' # [''localhost'']) 0 initial_world
       = (None, initial_world)
   \<and> surface late_bad_env (attempts initial_world) Clear
   \<and> fst (nvidiasmi_output late_bad_env ''10.0.0.1 -p22''
            (snd (curses_call late_bad_env Clear initial_world))) = Inr (Some ''bad'')
   \<and> fromstring late_bad_env ''bad'' = Some late_bad_log
   \<and> findall late_bad_log ''gpu''
       = [device_node ''0'' ''8000 MiB'' ''123'' ''500 MiB'']
         @ device_node ''1'' ''8000 MiB'' ''456'' ''N/A'' # []
   \<and> each parse_gpu [device_node ''0'' ''8000 MiB'' ''123'' ''500 MiB''] = Inr [device0]
   \<and> encounters (device_node ''1'' ''8000 MiB'' ''456'' ''N/A'')
        (Some (Element ''used_memory'' (Some ''N/A'') []))
   \<and> not_integer (Some (Element ''used_memory'' (Some ''N/A'') []))
   \<and> get_gpu_infos (fromstring late_bad_env) (Some ''bad'') = Inl ValueError
   \<and> fst (main late_bad_env (Some [''10.0.0.1 -p22'', ''localhost'']) (0 + Suc 2) initial_world)
       = Raised ValueError
   \<and> attempts (snd (main late_bad_env (Some [''10.0.0.1 -p22'', ''localhost'']) (0 + Suc 2)
                       initial_world))
       = attempts (snd (curses_call late_bad_env Clear initial_world))"
proof -
  let ?w1 = "snd (curses_call late_bad_env Clear initial_world)"
  let ?servers = "[] @ ''10.0.0.1 -p22'' # [''localhost'']"
  have f: "map strip (filter (\<lambda>line. strip line \<noteq> []) [''10.0.0.1 -p22'', ''localhost''])
           = ?servers"
    by (simp add: strip_examples)
  have k: "poll_loop late_bad_env ?servers 0 initial_world = (None, initial_world)" by simp
  have c: "surface late_bad_env (attempts initial_world) Clear"
    by (simp add: late_bad_env_fields window_accepts_def)
  have l: "servers_loop late_bad_env (snd (getmaxyx late_bad_env) div 2) 0 [] (0, 0) ?w1
           = (Inr (0, 0), ?w1)"
    by simp
  have n: "nvidiasmi_output late_bad_env ''10.0.0.1 -p22'' ?w1
           = (Inr (Some ''bad''),
              ?w1\<lparr>issued := issued ?w1 @
                [\<lparr>cmd = Argv [''ssh'', ''-p'', ''22'', ''10.0.0.1'', ''timeout 10 nvidia-smi -q -x''],
                  timeout = 5\<rparr>]\<rparr>)"
    unfolding late_bad_env_def by (rule bad_fetch)
  have p: "fromstring late_bad_env ''bad'' = Some late_bad_log" by (simp add: late_bad_env_fields)
  note th = parse_failure_ends_main[OF f k c l n p late_bad_log_fields(1) first_device_parses
      late_encounter late_bad_log_fields(4), of 2]
  show ?thesis using th f k c p late_bad_log_fields(1,4) first_device_parses late_encounter
    by (simp add: n)
qed

end
